theory Spec2Isabelle
  imports Main "HOL-Library.Word" "HOL-Library.Multiset"
begin


section \<open>The name allocator of the writer (flux/writer.go)\<close>

text \<open>
  Go's \<open>int\<close> is taken as the 64-bit machine integer; \<open>+\<close> wraps around. The field
  \<open>names\<close> of the writer is a Go map from strings to \<open>int\<close>: a partial function whose
  domain is the set of occupied names.
\<close>

type_synonym goint = "64 word"
type_synonym names = "string \<rightharpoonup> goint"

definition digit :: "nat \<Rightarrow> char" where
  "digit d = ''0123456789'' ! d"

fun decimal :: "nat \<Rightarrow> string" where
  "decimal n = (if n < 10 then [digit n] else decimal (n div 10) @ [digit (n mod 10)])"

declare decimal.simps [simp del]

text \<open>\<open>strconv.Itoa\<close>: the decimal form of a signed integer.\<close>

definition Itoa :: "goint \<Rightarrow> string" where
  "Itoa i = (if sint i < 0 then CHR ''-'' # decimal (nat (- sint i)) else decimal (nat (sint i)))"

text \<open>The first statement of \<open>writer.name\<close>: an empty or blank candidate becomes \<open>x\<close>.\<close>

definition base_name :: "string \<Rightarrow> string" where
  "base_name s = (if s = '''' \<or> s = ''_'' then ''x'' else s)"

text \<open>
  \<open>writer.name\<close>. The method mutates the map behind \<open>w.names\<close> and returns the
  identifier; the model returns both. The recursion is the source's own; a call that
  would not return has the value \<open>None\<close>.
\<close>

partial_function (option) name :: "names \<Rightarrow> string \<Rightarrow> (string \<times> names) option" where
  "name names s0 =
     (let s = base_name s0 in
      case names s of
        Some i \<Rightarrow> name (names(s \<mapsto> i + 1)) (s @ Itoa i)
      | None \<Rightarrow> Some (s, names(s \<mapsto> 2)))"

declare name.simps [code]

text \<open>A sequence of allocations in one session, each on the map the previous one left.\<close>

fun name_all :: "names \<Rightarrow> string list \<Rightarrow> (string list \<times> names) option" where
  "name_all names [] = Some ([], names)"
| "name_all names (c # cs) =
     (case name names c of
        None \<Rightarrow> None
      | Some (r, names') \<Rightarrow>
          (case name_all names' cs of
             None \<Rightarrow> None
           | Some (rs, names'') \<Rightarrow> Some (r # rs, names'')))"

text \<open>
  The loop of \<open>newWriter\<close> that seeds the map, from the empty map, with the names of the
  universe scope and of the package scope (both lists are inputs: the tables of the
  type checker are not part of the sources).
\<close>

definition newWriter_names :: "string list \<Rightarrow> string list \<Rightarrow> names option" where
  "newWriter_names universe scope = map_option snd (name_all Map.empty (universe @ scope))"


section \<open>Types of the type checker\<close>

text \<open>
  The sources use the type checker's types through type switches and field reads only;
  the package itself is not among them. The datatype has one constructor for each
  dynamic type the sources distinguish, with the fields they read. A value of the Go
  interface \<open>types.Type\<close> is a \<open>Type option\<close>, \<open>None\<close> for \<open>nil\<close>. Pointers to
  objects and packages are compared by address in Go; an object carries its address, and
  two packages are the same if their records are equal. A package is its name, its import
  path and the names of its scope (\<open>Scope().Names()\<close>).
\<close>

record Package =
  pkg_Name :: string
  pkg_Path :: string
  pkg_Scope :: "string list"

record TypeName =
  obj_addr :: "64 word"
  obj_Name :: string
  obj_Pkg :: "Package option"

datatype ChanDir = SendRecv | SendOnly | RecvOnly

datatype Type =
    Basic goint string
  | Array goint Type
  | Slice Type
  | Struct "Field list"
  | Pointer Type
  | Signature bool "Var list" "Var list"
  | Interface "Method list"
  | Map Type Type
  | Chan ChanDir Type
  | Named TypeName Type
  | Tuple "Var list"
  | generic
and Field = Field string bool string Type
and Var = Var string Type
and Method = Method string Type

text \<open>
  \<open>Basic kind name\<close>; \<open>Array len elem\<close>; \<open>Signature variadic params results\<close>;
  \<open>Named obj underlying\<close>; \<open>Field name anonymous tag type\<close>. The constructor
  \<open>generic\<close> is the placeholder type \<open>generic{}\<close> of the editor.
\<close>

text \<open>The entries \<open>types.Typ[types.Int]\<close> and \<open>types.Typ[types.Bool]\<close>.\<close>

definition Typ_Int :: Type where
  "Typ_Int = Basic 2 ''int''"

definition Typ_Bool :: Type where
  "Typ_Bool = Basic 1 ''bool''"

text \<open>
  A panic of the Go program is the value \<open>Inl (Panic msg)\<close>; \<open>Diverges\<close> stands for a
  call of the name allocator that does not return; \<open>Cyclic ns\<close> is the failure of the
  scheduler on a block with a cycle, with the identifiers of the nodes of the block that
  it could not order.
\<close>

datatype error = Panic string | Diverges | Cyclic "nat list"

definition bind :: "error + 'a \<Rightarrow> ('a \<Rightarrow> error + 'b) \<Rightarrow> error + 'b" where
  "bind m f = (case m of Inl e \<Rightarrow> Inl e | Inr v \<Rightarrow> f v)"


section \<open>The iteration node (flux/loop.go)\<close>

text \<open>
  \<open>loop.go\<close> is written against an earlier set of type names: \<open>NamedType\<close>,
  \<open>ChanType\<close>, \<open>ArrayType\<close>, \<open>SliceType\<close> and \<open>MapType\<close> are the constructors
  \<open>Named\<close>, \<open>Chan\<close>, \<open>Array\<close>, \<open>Slice\<close> and \<open>Map\<close>. The node is its list
  \<open>inputsNode.outs\<close> of binding outputs; an output is the list of its connections.
\<close>

record output_port =
  out_conns :: "nat list"

record loopNode =
  inputsNode_outs :: "output_port list"

definition newOutput :: "loopNode \<Rightarrow> loopNode" where
  "newOutput n = n\<lparr>inputsNode_outs := inputsNode_outs n @ [\<lparr>out_conns = []\<rparr>]\<rparr>"

text \<open>The two bodies of the type switch of \<open>loopNode.updateInputType\<close>.\<close>

definition remove_second :: "loopNode \<Rightarrow> loopNode" where
  "remove_second n =
     (if length (inputsNode_outs n) = 2
      then n\<lparr>inputsNode_outs := take 1 (inputsNode_outs n)\<rparr> else n)"

definition add_second :: "loopNode \<Rightarrow> loopNode" where
  "add_second n = (if length (inputsNode_outs n) = 1 then newOutput n else n)"

fun loopNode_updateInputType :: "loopNode \<Rightarrow> Type option \<Rightarrow> loopNode" where
  "loopNode_updateInputType n None = remove_second n"
| "loopNode_updateInputType n (Some (Named obj u)) = remove_second n"
| "loopNode_updateInputType n (Some (Chan d e)) = remove_second n"
| "loopNode_updateInputType n (Some (Array l e)) = add_second n"
| "loopNode_updateInputType n (Some (Slice e)) = add_second n"
| "loopNode_updateInputType n (Some (Map k e)) = add_second n"
| "loopNode_updateInputType n (Some t) = n"

text \<open>\<open>newLoopNode\<close>: one binding output, then a recomputation with no type.\<close>

definition newLoopNode :: loopNode where
  "newLoopNode = loopNode_updateInputType (newOutput \<lparr>inputsNode_outs = []\<rparr>) None"


section \<open>The index node (flux/index.go)\<close>

text \<open>
  Ports and connections are heap objects that refer to each other; the model keeps them
  in a store and refers to them by their keys: a port by its position in the list of all
  ports made so far, a connection by its key in the map of the connections of the block.
  A port holds the name and the type of its object (\<open>obj.Name\<close>, \<open>obj.Type\<close>) and
  the list of its connections. Reading through a key that is not in the store is a nil
  dereference.
\<close>

record port =
  port_Name :: string
  port_Type :: "Type option"
  conns :: "nat list"

record connection =
  src :: "nat option"
  dst :: "nat option"

record graph =
  ports :: "port list"
  connections :: "nat \<rightharpoonup> connection"

record indexNode =
  ix_set :: bool
  ix_x :: nat
  ix_key :: nat
  ix_inVal :: "nat option"
  ix_outVal :: "nat option"
  ix_ok :: "nat option"
  ix_addressable :: bool
  ix_ins :: "nat list"
  ix_outs :: "nat list"

definition nil_dereference :: error where
  "nil_dereference = Panic ''invalid memory address or nil pointer dereference''"

definition get_port :: "graph \<Rightarrow> nat \<Rightarrow> error + port" where
  "get_port g i = (if i < length (ports g) then Inr (ports g ! i) else Inl nil_dereference)"

definition get_port_opt :: "graph \<Rightarrow> nat option \<Rightarrow> error + port" where
  "get_port_opt g i = (case i of None \<Rightarrow> Inl nil_dereference | Some j \<Rightarrow> get_port g j)"

definition get_conn :: "graph \<Rightarrow> nat \<Rightarrow> error + connection" where
  "get_conn g c = (case connections g c of None \<Rightarrow> Inl nil_dereference | Some k \<Rightarrow> Inr k)"

text \<open>
  Modelled from the spec: \<open>indirect\<close>, whose declaration is not among the sources. The
  index node handles "arrays/pointers-to-array": \<open>indirect\<close> takes one pointer off a
  type and tells whether it did.
\<close>

definition indirect :: "Type option \<Rightarrow> Type option \<times> bool" where
  "indirect t = (case t of Some (Pointer b) \<Rightarrow> (Some b, True) | _ \<Rightarrow> (t, False))"

text \<open>
  Modelled from the spec: \<open>port.setType\<close>, \<open>nodeBase.newInput\<close>, \<open>nodeBase.newOutput\<close>
  and \<open>block.removeConn\<close>, whose declarations are not among the sources. A port
  "carries a resolved type", which \<open>setType\<close> assigns; a new port is a new object with
  no connection; "disconnect(connection)" takes the connection out of the block and out
  of the connection lists of the ports.
\<close>

definition setType :: "nat \<Rightarrow> Type option \<Rightarrow> graph \<Rightarrow> error + graph" where
  "setType i t g =
     (if i < length (ports g)
      then Inr (g\<lparr>ports := (ports g)[i := (ports g ! i)\<lparr>port_Type := t\<rparr>]\<rparr>)
      else Inl nil_dereference)"

definition setType_opt :: "nat option \<Rightarrow> Type option \<Rightarrow> graph \<Rightarrow> error + graph" where
  "setType_opt i t g = (case i of None \<Rightarrow> Inl nil_dereference | Some j \<Rightarrow> setType j t g)"

definition newPort :: "string \<Rightarrow> Type option \<Rightarrow> graph \<Rightarrow> nat \<times> graph" where
  "newPort nm t g =
     (length (ports g),
      g\<lparr>ports := ports g @ [\<lparr>port_Name = nm, port_Type = t, conns = []\<rparr>]\<rparr>)"

definition removeConn :: "nat \<Rightarrow> graph \<Rightarrow> graph" where
  "removeConn c g =
     g\<lparr>ports := map (\<lambda>p. p\<lparr>conns := removeAll c (conns p)\<rparr>) (ports g),
       connections := (connections g)(c := None)\<rparr>"

text \<open>
  Modelled from the spec: \<open>Remove\<close> and \<open>reform\<close> of the node, whose declarations are not
  among the sources. They belong to the picture of the node in the editor, which the
  spec leaves out ("the visual layout algorithm" is a non-goal): \<open>Remove\<close> takes the picture
  of a port out of the picture of the node, \<open>reform\<close> arranges the picture of the node
  again. They change no port, type or connection of the store, and they return.
\<close>

definition Remove :: "nat \<Rightarrow> graph \<Rightarrow> error + graph" where
  "Remove k g = Inr g"

definition reform :: "graph \<Rightarrow> error + graph" where
  "reform g = Inr g"

text \<open>The object of the source port of the first connection of a port, if there is one.\<close>

definition first_src :: "graph \<Rightarrow> port \<Rightarrow> error + port option" where
  "first_src g p =
     (case conns p of
        [] \<Rightarrow> Inr None
      | c # cs \<Rightarrow>
          bind (get_conn g c) (\<lambda>k.
            case src k of
              None \<Rightarrow> Inr None
            | Some i \<Rightarrow> bind (get_port g i) (\<lambda>q. Inr (Some q))))"

definition src_Type :: "port option \<Rightarrow> Type option" where
  "src_Type p = (case p of None \<Rightarrow> None | Some q \<Rightarrow> port_Type q)"

text \<open>
  The first half of \<open>indexNode.updateInputType\<close>: the types \<open>t\<close>, \<open>key\<close> and \<open>elt\<close>
  and the flag \<open>addressable\<close>, from the source \<open>p\<close> of the container input when it
  is connected.
\<close>

definition container_types ::
  "bool \<Rightarrow> port \<Rightarrow> Type option \<times> Type option \<times> Type option \<times> bool" where
  "container_types set_flag p =
     (let (t, ptr) = indirect (port_Type p);
          u = (case t of Some (Named obj und) \<Rightarrow> Some und | _ \<Rightarrow> t);
          key = Some Typ_Int
      in case u of
           Some (Array l e) \<Rightarrow>
             (if ptr \<and> \<not> set_flag then (port_Type p, key, Some (Pointer e), True)
              else (t, key, Some e, False))
         | Some (Slice e) \<Rightarrow>
             (if \<not> set_flag then (t, key, Some (Pointer e), True) else (t, key, Some e, False))
         | Some (Map k e) \<Rightarrow> (t, Some k, Some e, False)
         | _ \<Rightarrow> (t, key, None, False))"

definition derive_types ::
  "indexNode \<Rightarrow> graph \<Rightarrow> error + Type option \<times> Type option \<times> Type option \<times> bool" where
  "derive_types n g =
     bind (get_port g (ix_x n)) (\<lambda>xp.
       if conns xp \<noteq> [] then
         bind (first_src g xp) (\<lambda>p.
           Inr (case p of
                  None \<Rightarrow> (None, None, None, False)
                | Some q \<Rightarrow> container_types (ix_set n) q))
       else
         bind (get_port g (ix_key n)) (\<lambda>kp.
         bind (first_src g kp) (\<lambda>ko.
         bind (if ix_set n
               then bind (get_port_opt g (ix_inVal n)) (\<lambda>vp. first_src g vp)
               else Inr None) (\<lambda>vo.
           Inr (None, src_Type ko, src_Type vo, False)))))"

definition or_generic :: "Type option \<Rightarrow> Type option" where
  "or_generic t = (case t of None \<Rightarrow> Some generic | Some u \<Rightarrow> Some u)"

text \<open>The second type switch: the \<open>ok\<close> output of a node that reads.\<close>

definition add_ok :: "indexNode \<Rightarrow> graph \<Rightarrow> error + indexNode \<times> graph" where
  "add_ok n g =
     (case ix_ok n of
        Some k \<Rightarrow> Inr (n, g)
      | None \<Rightarrow>
          (let (i, g') = newPort ''ok'' (Some Typ_Bool) g
           in Inr (n\<lparr>ix_ok := Some i, ix_outs := ix_outs n @ [i]\<rparr>, g')))"

definition remove_ok :: "indexNode \<Rightarrow> graph \<Rightarrow> error + indexNode \<times> graph" where
  "remove_ok n g =
     (case ix_ok n of
        None \<Rightarrow> Inr (n, g)
      | Some k \<Rightarrow>
          bind (get_port g k) (\<lambda>okp.
          bind (Remove k (fold removeConn (conns okp) g)) (\<lambda>g'.
            if ix_outs n = [] then Inl (Panic ''slice bounds out of range'')
            else Inr (n\<lparr>ix_outs := take 1 (ix_outs n), ix_ok := None\<rparr>, g'))))"

definition update_ok :: "indexNode \<Rightarrow> graph \<Rightarrow> Type option \<Rightarrow> error + indexNode \<times> graph" where
  "update_ok n g t = (case t of Some (Map k e) \<Rightarrow> add_ok n g | _ \<Rightarrow> remove_ok n g)"

text \<open>
  The assignments at the end of \<open>indexNode.updateInputType\<close>; the function ends with
  the call of \<open>reform\<close>.
\<close>

definition assign_types ::
  "indexNode \<Rightarrow> Type option \<Rightarrow> Type option \<Rightarrow> Type option \<Rightarrow> graph \<Rightarrow> error + graph" where
  "assign_types n t key elt g =
     bind (setType (ix_x n) t g) (\<lambda>g1.
     bind (setType (ix_key n) key g1) (\<lambda>g2.
       setType_opt (if ix_set n then ix_inVal n else ix_outVal n) elt g2))"

definition indexNode_updateInputType :: "indexNode \<Rightarrow> graph \<Rightarrow> error + indexNode \<times> graph" where
  "indexNode_updateInputType n g =
     bind (derive_types n g) (\<lambda>(t0, key0, elt0, a).
       let t = or_generic t0; key = or_generic key0; elt = or_generic elt0;
           n1 = n\<lparr>ix_addressable := a\<rparr>
       in bind (if \<not> ix_set n1 then update_ok n1 g t else Inr (n1, g)) (\<lambda>(n2, g2).
          bind (assign_types n2 t key elt g2) (\<lambda>g3.
          bind (reform g3) (\<lambda>g4. Inr (n2, g4)))))"

text \<open>
  \<open>newIndexNode\<close>: the ports of the node, then a first recomputation. (The sequencing
  ports that \<open>addSeqPorts\<close> adds carry no value and are left out.)
\<close>

definition newIndexNode :: "bool \<Rightarrow> graph \<Rightarrow> error + indexNode \<times> graph" where
  "newIndexNode set_flag g =
     (let (x, g1) = newPort [] None g;
          (key, g2) = newPort [] None g1;
          (v, g3) = newPort [] None g2;
          n = \<lparr>ix_set = set_flag, ix_x = x, ix_key = key,
               ix_inVal = (if set_flag then Some v else None),
               ix_outVal = (if set_flag then None else Some v),
               ix_ok = None, ix_addressable = False,
               ix_ins = (if set_flag then [x, key, v] else [x, key]),
               ix_outs = (if set_flag then [] else [v])\<rparr>
      in indexNode_updateInputType n g3)"

definition empty_graph :: graph where
  "empty_graph = \<lparr>ports = [], connections = Map.empty\<rparr>"

text \<open>
  The structure that every index node has: its ports are distinct ports of the store, a
  node that writes has the input \<open>inVal\<close> and no output, a node that reads has the
  output \<open>outVal\<close> first in \<open>outs\<close> and after it the output \<open>ok\<close> if there is one,
  and the connections of its inputs and the ports at their source end are in the store.
\<close>

definition conn_ok :: "graph \<Rightarrow> nat \<Rightarrow> bool" where
  "conn_ok g c =
     (case connections g c of
        None \<Rightarrow> False
      | Some k \<Rightarrow> (case src k of None \<Rightarrow> True | Some j \<Rightarrow> j < length (ports g)))"

definition port_ok :: "graph \<Rightarrow> nat \<Rightarrow> bool" where
  "port_ok g i = (i < length (ports g) \<and> list_all (conn_ok g) (conns (ports g ! i)))"

definition opt_list :: "'a option \<Rightarrow> 'a list" where
  "opt_list v = (case v of None \<Rightarrow> [] | Some a \<Rightarrow> [a])"

definition node_ports :: "indexNode \<Rightarrow> nat list" where
  "node_ports n =
     [ix_x n, ix_key n] @ opt_list (ix_inVal n) @ opt_list (ix_outVal n) @ opt_list (ix_ok n)"

definition index_wf :: "indexNode \<Rightarrow> graph \<Rightarrow> bool" where
  "index_wf n g =
     (port_ok g (ix_x n) \<and> port_ok g (ix_key n) \<and> distinct (node_ports n) \<and>
      list_all (\<lambda>i. i < length (ports g)) (node_ports n) \<and>
      (if ix_set n
       then (case ix_inVal n of None \<Rightarrow> False | Some v \<Rightarrow> port_ok g v) \<and>
            ix_outVal n = None \<and> ix_ok n = None \<and> ix_outs n = []
       else ix_inVal n = None \<and> ix_outVal n \<noteq> None \<and>
            ix_outs n = opt_list (ix_outVal n) @ opt_list (ix_ok n)))"

definition is_Map :: "Type option \<Rightarrow> bool" where
  "is_Map t = (case t of Some (Map k e) \<Rightarrow> True | _ \<Rightarrow> False)"

text \<open>
  An example configuration: a reading index node (ports 0, 1, 2 and the output \<open>ok\<close>,
  port 4) whose container input is connected (connection 7) to a port of type
  \<open>[]int\<close> (port 3), and whose output \<open>ok\<close> is connected (connection 9) to an input
  of another node (port 5).
\<close>

definition example_graph :: graph where
  "example_graph =
     \<lparr>ports =
        [\<lparr>port_Name = [], port_Type = Some (Map Typ_Int Typ_Bool), conns = [7]\<rparr>,
         \<lparr>port_Name = [], port_Type = Some Typ_Int, conns = []\<rparr>,
         \<lparr>port_Name = [], port_Type = Some Typ_Bool, conns = []\<rparr>,
         \<lparr>port_Name = ''s'', port_Type = Some (Slice Typ_Int), conns = [7]\<rparr>,
         \<lparr>port_Name = ''ok'', port_Type = Some Typ_Bool, conns = [9]\<rparr>,
         \<lparr>port_Name = ''b'', port_Type = Some Typ_Bool, conns = [9]\<rparr>],
      connections = [7 \<mapsto> \<lparr>src = Some 3, dst = Some 0\<rparr>, 9 \<mapsto> \<lparr>src = Some 4, dst = Some 5\<rparr>]\<rparr>"

definition example_node :: indexNode where
  "example_node =
     \<lparr>ix_set = False, ix_x = 0, ix_key = 1, ix_inVal = None, ix_outVal = Some 2,
      ix_ok = Some 4, ix_addressable = False, ix_ins = [0, 1], ix_outs = [2, 4]\<rparr>"

text \<open>
  The same configuration with the container connected to a port of the named type
  \<open>M\<close>, declared as \<open>map[string]bool\<close>.
\<close>

definition example_named_map :: Type where
  "example_named_map =
     Named \<lparr>obj_addr = 1, obj_Name = ''M'', obj_Pkg = None\<rparr> (Map (Basic 17 ''string'') Typ_Bool)"

definition named_map_graph :: graph where
  "named_map_graph =
     \<lparr>ports =
        [\<lparr>port_Name = [], port_Type = Some (Map Typ_Int Typ_Bool), conns = [7]\<rparr>,
         \<lparr>port_Name = [], port_Type = Some Typ_Int, conns = []\<rparr>,
         \<lparr>port_Name = [], port_Type = Some Typ_Bool, conns = []\<rparr>,
         \<lparr>port_Name = ''m'', port_Type = Some example_named_map, conns = [7]\<rparr>,
         \<lparr>port_Name = ''ok'', port_Type = Some Typ_Bool, conns = [9]\<rparr>,
         \<lparr>port_Name = ''b'', port_Type = Some Typ_Bool, conns = [9]\<rparr>],
      connections = [7 \<mapsto> \<lparr>src = Some 3, dst = Some 0\<rparr>, 9 \<mapsto> \<lparr>src = Some 4, dst = Some 5\<rparr>]\<rparr>"

text \<open>
  A type can be indexed if it is an array, slice or map type, or a named type whose
  underlying type is one: the cases of the first type switch of the recomputation.
\<close>

definition indexable :: "Type option \<Rightarrow> bool" where
  "indexable t =
     (case (case t of Some (Named obj und) \<Rightarrow> Some und | _ \<Rightarrow> t) of
        Some (Array l e) \<Rightarrow> True
      | Some (Slice e) \<Rightarrow> True
      | Some (Map k e) \<Rightarrow> True
      | _ \<Rightarrow> False)"

text \<open>
  The example configuration with the container connected to a port of the type
  \<open>bool\<close>, and with the container connected to nothing at its source end.
\<close>

definition scalar_graph :: graph where
  "scalar_graph =
     \<lparr>ports =
        [\<lparr>port_Name = [], port_Type = Some (Map Typ_Int Typ_Bool), conns = [7]\<rparr>,
         \<lparr>port_Name = [], port_Type = Some Typ_Int, conns = []\<rparr>,
         \<lparr>port_Name = [], port_Type = Some Typ_Bool, conns = []\<rparr>,
         \<lparr>port_Name = ''b'', port_Type = Some Typ_Bool, conns = [7]\<rparr>,
         \<lparr>port_Name = ''ok'', port_Type = Some Typ_Bool, conns = [9]\<rparr>,
         \<lparr>port_Name = ''c'', port_Type = Some Typ_Bool, conns = [9]\<rparr>],
      connections = [7 \<mapsto> \<lparr>src = Some 3, dst = Some 0\<rparr>, 9 \<mapsto> \<lparr>src = Some 4, dst = Some 5\<rparr>]\<rparr>"

text \<open>The same configuration with the container connected to a port of the type
  \<open>map[string]bool\<close> itself.\<close>

definition map_graph :: graph where
  "map_graph =
     \<lparr>ports =
        [\<lparr>port_Name = [], port_Type = Some (Map Typ_Int Typ_Bool), conns = [7]\<rparr>,
         \<lparr>port_Name = [], port_Type = Some Typ_Int, conns = []\<rparr>,
         \<lparr>port_Name = [], port_Type = Some Typ_Bool, conns = []\<rparr>,
         \<lparr>port_Name = ''m'', port_Type = Some (Map (Basic 17 ''string'') Typ_Bool), conns = [7]\<rparr>,
         \<lparr>port_Name = ''ok'', port_Type = Some Typ_Bool, conns = [9]\<rparr>,
         \<lparr>port_Name = ''b'', port_Type = Some Typ_Bool, conns = [9]\<rparr>],
      connections = [7 \<mapsto> \<lparr>src = Some 3, dst = Some 0\<rparr>, 9 \<mapsto> \<lparr>src = Some 4, dst = Some 5\<rparr>]\<rparr>"


section \<open>The writer: named types (flux/writer.go)\<close>

text \<open>
  The writer holds the text written so far (\<open>src\<close>; the file it goes to is outside
  the model), the package of the definition, the names of the imported packages, the
  name allocator's map, the sequencing counter and identifiers, and the indentation.
  \<open>pkgNames\<close> is a Go map that the writer also iterates over: it is the list of its
  entries, with one entry for a key, and the order in which \<open>range\<close> visits the
  entries is chosen by the Go runtime at each iteration. That choice is the parameter
  \<open>rng\<close> of the functions that iterate: from the entries to the entries in the order
  of the visit.
\<close>

record writer =
  w_src :: string
  w_pkg :: Package
  w_pkgNames :: "(Package \<times> string) list"
  w_names :: names
  w_seqID :: goint
  w_seqIDs :: "nat \<rightharpoonup> goint"
  w_nindent :: nat

definition newline :: string where
  "newline = [CHR 0x0A]"

definition tab :: string where
  "tab = [CHR 0x09]"

definition w_write :: "writer \<Rightarrow> string \<Rightarrow> writer" where
  "w_write w s = w\<lparr>w_src := w_src w @ s\<rparr>"

definition w_indent :: "writer \<Rightarrow> string \<Rightarrow> writer" where
  "w_indent w s = w_write w (concat (replicate (w_nindent w) tab) @ s)"

text \<open>
  \<open>fmt.Fprintf\<close> of the standard library for a call without operands, as the writer
  makes it where the text to write is itself the format. Text outside a verb is copied. A
  verb starts with \<open>%\<close> and goes on with flags, an argument index in brackets, a width, a
  precision and the verb character. \<open>%%\<close> gives \<open>%\<close>; any other verb finds no operand and
  gives \<open>%!c(MISSING)\<close>, or \<open>%!c(BADINDEX)\<close> after an argument index; a \<open>*\<close> as width
  or precision gives \<open>%!(BADWIDTH)\<close> or \<open>%!(BADPREC)\<close>; a format that ends inside a verb
  gives \<open>%!(NOVERB)\<close>. A width or precision whose digits go on after their number has
  passed a million ends the format. The verb character is a rune in UTF-8; a byte that
  starts none is written as the replacement character.
\<close>

definition is_flag :: "char \<Rightarrow> bool" where
  "is_flag c = (c \<in> set ''#0+- '')"

definition is_digit :: "char \<Rightarrow> bool" where
  "is_digit c = (48 \<le> (of_char c :: nat) \<and> (of_char c :: nat) \<le> 57)"

fun parsenum :: "nat \<Rightarrow> string \<Rightarrow> string" where
  "parsenum num [] = []"
| "parsenum num (c # cs) =
     (if is_digit c
      then (if num > 1000000 then [] else parsenum (num * 10 + (of_char c - 48)) cs)
      else c # cs)"

definition argNumber :: "string \<Rightarrow> bool \<times> string" where
  "argNumber s =
     (case s of
        [] \<Rightarrow> (False, [])
      | c # cs \<Rightarrow>
          if c \<noteq> CHR ''['' then (False, s)
          else if length s < 3 \<or> CHR '']'' \<notin> set cs then (True, cs)
          else (True, tl (dropWhile (\<lambda>d. d \<noteq> CHR '']'') cs)))"

definition cont :: "char \<Rightarrow> bool" where
  "cont c = (0x80 \<le> (of_char c :: nat) \<and> (of_char c :: nat) \<le> 0xBF)"

definition rune_len :: "string \<Rightarrow> nat" where
  "rune_len s =
     (case s of
        [] \<Rightarrow> 0
      | b0 # r \<Rightarrow>
          (let n = (of_char b0 :: nat) in
           if n < 0x80 then 1
           else if 0xC2 \<le> n \<and> n \<le> 0xDF then
             (case r of b1 # r1 \<Rightarrow> if cont b1 then 2 else 0 | _ \<Rightarrow> 0)
           else if 0xE0 \<le> n \<and> n \<le> 0xEF then
             (case r of
                b1 # b2 # r2 \<Rightarrow>
                  if (if n = 0xE0 then 0xA0 else 0x80) \<le> (of_char b1 :: nat) \<and>
                     (of_char b1 :: nat) \<le> (if n = 0xED then 0x9F else 0xBF) \<and> cont b2
                  then 3 else 0
              | _ \<Rightarrow> 0)
           else if 0xF0 \<le> n \<and> n \<le> 0xF4 then
             (case r of
                b1 # b2 # b3 # r3 \<Rightarrow>
                  if (if n = 0xF0 then 0x90 else 0x80) \<le> (of_char b1 :: nat) \<and>
                     (of_char b1 :: nat) \<le> (if n = 0xF4 then 0x8F else 0xBF) \<and> cont b2 \<and> cont b3
                  then 4 else 0
              | _ \<Rightarrow> 0)
           else 0))"

definition verb_rune :: "string \<Rightarrow> string \<times> string" where
  "verb_rune s =
     (if rune_len s = 0 then ([CHR 0xEF, CHR 0xBF, CHR 0xBD], tl s)
      else (take (rune_len s) s, drop (rune_len s) s))"

text \<open>
  One verb, from the character after the \<open>%\<close>: what is written for it, and the rest of
  the format.
\<close>

definition verb_part :: "string \<Rightarrow> string \<times> string" where
  "verb_part s =
     (let s1 = dropWhile is_flag s;
          (index1, s2) = argNumber s1;
          (width, after2, s3) =
            (case s2 of
               c # cs \<Rightarrow> if c = CHR ''*'' then (''%!(BADWIDTH)'', False, cs)
                         else ([], index1, parsenum 0 s2)
             | [] \<Rightarrow> ([], index1, []));
          (index2, prec, after3, s4) =
            (case s3 of
               c # cs \<Rightarrow>
                 if c = CHR ''.''
                 then (let (index, s') = argNumber cs in
                       case s' of
                         d # ds \<Rightarrow> if d = CHR ''*'' then (index, ''%!(BADPREC)'', False, ds)
                                   else (index, [], index, parsenum 0 s')
                       | [] \<Rightarrow> (index, [], index, []))
                 else (False, [], after2, s3)
             | [] \<Rightarrow> (False, [], after2, []));
          (index3, s5) = (if after3 then (False, s4) else argNumber s4);
          bad = (index1 \<or> index2 \<or> index3)
      in if s5 = [] then (width @ prec @ ''%!(NOVERB)'', [])
         else (let (v, rest) = verb_rune s5 in
               (width @ prec @
                  (if v = ''%'' then ''%''
                   else ''%!'' @ v @ (if bad then ''(BADINDEX)'' else ''(MISSING)'')),
                rest)))"

text \<open>
  The loop over the format; each turn takes at least one character, so the length of
  the format bounds the number of turns.
\<close>

primrec fmt_loop :: "nat \<Rightarrow> string \<Rightarrow> string" where
  "fmt_loop 0 s = []"
| "fmt_loop (Suc k) s =
     (case s of
        [] \<Rightarrow> []
      | c # cs \<Rightarrow>
          if c \<noteq> CHR ''%'' then c # fmt_loop k cs
          else (let (out, rest) = verb_part cs in out @ fmt_loop k rest))"

definition Fprintf :: "string \<Rightarrow> string" where
  "Fprintf format = fmt_loop (length format) format"

text \<open>\<open>writer.write\<close> and \<open>writer.indent\<close> with a format and no operands.\<close>

definition w_writef :: "writer \<Rightarrow> string \<Rightarrow> writer" where
  "w_writef w format = w_write w (Fprintf format)"

definition w_indentf :: "writer \<Rightarrow> string \<Rightarrow> writer" where
  "w_indentf w format = w_writef w (concat (replicate (w_nindent w) tab) @ format)"

text \<open>\<open>writer.name\<close> on the writer; a call that does not return is the error \<open>Diverges\<close>.\<close>

definition w_name :: "writer \<Rightarrow> string \<Rightarrow> error + string \<times> writer" where
  "w_name w s =
     (case name (w_names w) s of
        None \<Rightarrow> Inl Diverges
      | Some (r, ns) \<Rightarrow> Inr (r, w\<lparr>w_names := ns\<rparr>))"

text \<open>
  \<open>strconv.Quote\<close> on ASCII text: the double quote and the backslash are escaped,
  control characters are written as their escapes, all other characters are copied.
\<close>

definition hex_digit :: "nat \<Rightarrow> char" where
  "hex_digit d = ''0123456789abcdef'' ! d"

definition quote_char :: "char \<Rightarrow> string" where
  "quote_char c =
     (let n = (of_char c :: nat) in
      if n = 0x22 then [CHR 0x5C, CHR 0x22]
      else if n = 0x5C then [CHR 0x5C, CHR 0x5C]
      else if n = 7 then [CHR 0x5C, CHR ''a'']
      else if n = 8 then [CHR 0x5C, CHR ''b'']
      else if n = 12 then [CHR 0x5C, CHR ''f'']
      else if n = 10 then [CHR 0x5C, CHR ''n'']
      else if n = 13 then [CHR 0x5C, CHR ''r'']
      else if n = 9 then [CHR 0x5C, CHR ''t'']
      else if n = 11 then [CHR 0x5C, CHR ''v'']
      else if n < 0x20 \<or> n = 0x7F
        then [CHR 0x5C, CHR ''x'', hex_digit (n div 16), hex_digit (n mod 16)]
      else [c])"

definition Quote :: "string \<Rightarrow> string" where
  "Quote s = [CHR 0x22] @ concat (map quote_char s) @ [CHR 0x22]"

text \<open>\<open>strings.Join\<close>\<close>

fun Join :: "string list \<Rightarrow> string \<Rightarrow> string" where
  "Join [] sep = []"
| "Join [a] sep = a"
| "Join (a # b # bs) sep = a @ sep @ Join (b # bs) sep"

definition qualifiedName :: "writer \<Rightarrow> TypeName \<Rightarrow> string" where
  "qualifiedName w obj =
     (case obj_Pkg obj of
        None \<Rightarrow> obj_Name obj
      | Some p \<Rightarrow>
          (case map_of (w_pkgNames w) p of
             Some q \<Rightarrow> q @ ''.'' @ obj_Name obj
           | None \<Rightarrow> obj_Name obj))"

definition unexpected_type :: error where
  "unexpected_type = Panic ''unexpected type''"

definition interface_conversion :: error where
  "interface_conversion = Panic ''interface conversion''"

text \<open>
  \<open>writer.typ\<close>, \<open>writer.signature\<close> and \<open>writer.vars\<close>. The loops over methods,
  fields and variables give the list of the items; the separator goes between them.
  \<open>w_results\<close> is the part of \<open>signature\<close> for the results, \<open>variadic_elem\<close> the
  type of the last parameter of a variadic function.
\<close>

fun w_typ :: "writer \<Rightarrow> Type \<Rightarrow> error + string"
and w_signature :: "writer \<Rightarrow> Type \<Rightarrow> error + string"
and w_results :: "writer \<Rightarrow> Var list \<Rightarrow> error + string"
and vars_items :: "writer \<Rightarrow> bool \<Rightarrow> Var list \<Rightarrow> error + string list"
and variadic_elem :: "writer \<Rightarrow> Type \<Rightarrow> error + string"
and methods_items :: "writer \<Rightarrow> Method list \<Rightarrow> error + string list"
and fields_items :: "writer \<Rightarrow> Field list \<Rightarrow> error + string list"
where
  "w_typ w (Basic k nm) = Inr nm"
| "w_typ w (Named obj u) = Inr (qualifiedName w obj)"
| "w_typ w (Pointer e) = bind (w_typ w e) (\<lambda>s. Inr (''*'' @ s))"
| "w_typ w (Array l e) = bind (w_typ w e) (\<lambda>s. Inr (''['' @ Itoa l @ '']'' @ s))"
| "w_typ w (Slice e) = bind (w_typ w e) (\<lambda>s. Inr (''[]'' @ s))"
| "w_typ w (Map k e) =
     bind (w_typ w k) (\<lambda>a. bind (w_typ w e) (\<lambda>b. Inr (''map['' @ a @ '']'' @ b)))"
| "w_typ w (Chan d e) =
     bind (w_typ w e) (\<lambda>s.
       Inr ((case d of SendOnly \<Rightarrow> ''chan<- '' | RecvOnly \<Rightarrow> ''<-chan '' | SendRecv \<Rightarrow> ''chan '')
            @ s))"
| "w_typ w (Signature v ps rs) =
     bind (w_signature w (Signature v ps rs)) (\<lambda>s. Inr (''func'' @ s))"
| "w_typ w (Interface ms) =
     bind (methods_items w ms) (\<lambda>items. Inr (''interface{'' @ Join items ''; '' @ ''}''))"
| "w_typ w (Struct fs) =
     bind (fields_items w fs) (\<lambda>items. Inr (''struct{'' @ Join items ''; '' @ ''}''))"
| "w_typ w (Tuple vs) = Inl unexpected_type"
| "w_typ w generic = Inl unexpected_type"
| "w_signature w (Signature v ps rs) =
     bind (vars_items w v ps) (\<lambda>items.
     bind (w_results w rs) (\<lambda>r. Inr (''('' @ Join items '', '' @ '')'' @ r)))"
| "w_signature w t = Inl interface_conversion"
| "w_results w [] = Inr []"
| "w_results w [Var nm t] =
     (if nm = []
      then bind (w_typ w t) (\<lambda>r. Inr ('' '' @ r))
      else bind (vars_items w False [Var nm t]) (\<lambda>items.
             Inr ('' '' @ ''('' @ Join items '', '' @ '')'')))"
| "w_results w (r # r' # rs) =
     bind (vars_items w False (r # r' # rs)) (\<lambda>items.
       Inr ('' '' @ ''('' @ Join items '', '' @ '')''))"
| "vars_items w variadic [] = Inr []"
| "vars_items w variadic [Var nm t] =
     bind (if variadic then variadic_elem w t else w_typ w t) (\<lambda>s.
       Inr [(if nm = [] then ''_'' else nm) @ '' '' @ s])"
| "vars_items w variadic (Var nm t # v # vs) =
     bind (w_typ w t) (\<lambda>s.
     bind (vars_items w variadic (v # vs)) (\<lambda>items.
       Inr (((if nm = [] then ''_'' else nm) @ '' '' @ s) # items)))"
| "variadic_elem w (Slice e) = bind (w_typ w e) (\<lambda>s. Inr (''...'' @ s))"
| "variadic_elem w t = Inl interface_conversion"
| "methods_items w [] = Inr []"
| "methods_items w (Method nm t # ms) =
     bind (w_signature w t) (\<lambda>s.
     bind (methods_items w ms) (\<lambda>items. Inr ((nm @ s) # items)))"
| "fields_items w [] = Inr []"
| "fields_items w (Field nm anonymous tag t # fs) =
     bind (w_typ w t) (\<lambda>s.
     bind (fields_items w fs) (\<lambda>items.
       Inr (((if \<not> anonymous \<and> nm \<noteq> [] then nm @ '' '' else []) @ s) # items)))"

definition typ_opt :: "writer \<Rightarrow> Type option \<Rightarrow> error + string" where
  "typ_opt w t = (case t of None \<Rightarrow> Inl unexpected_type | Some u \<Rightarrow> w_typ w u)"

text \<open>
  \<open>walkType\<close>: the named types of a type in the order in which the walk calls \<open>op\<close>
  on them.
\<close>

fun walkType :: "Type \<Rightarrow> error + TypeName list"
and walkVars :: "Var list \<Rightarrow> error + TypeName list"
and walkMethods :: "Method list \<Rightarrow> error + TypeName list"
and walkFields :: "Field list \<Rightarrow> error + TypeName list"
where
  "walkType (Basic k nm) = Inr []"
| "walkType (Named obj u) = Inr [obj]"
| "walkType (Pointer e) = walkType e"
| "walkType (Array l e) = walkType e"
| "walkType (Slice e) = walkType e"
| "walkType (Map k e) = bind (walkType k) (\<lambda>a. bind (walkType e) (\<lambda>b. Inr (a @ b)))"
| "walkType (Chan d e) = walkType e"
| "walkType (Signature v ps rs) = walkVars (ps @ rs)"
| "walkType (Interface ms) = walkMethods ms"
| "walkType (Struct fs) = walkFields fs"
| "walkType (Tuple vs) = Inl unexpected_type"
| "walkType generic = Inl unexpected_type"
| "walkVars [] = Inr []"
| "walkVars (Var nm t # vs) = bind (walkType t) (\<lambda>a. bind (walkVars vs) (\<lambda>b. Inr (a @ b)))"
| "walkMethods [] = Inr []"
| "walkMethods (Method nm t # ms) =
     bind (walkType t) (\<lambda>a. bind (walkMethods ms) (\<lambda>b. Inr (a @ b)))"
| "walkFields [] = Inr []"
| "walkFields (Field nm anonymous tag t # fs) =
     bind (walkType t) (\<lambda>a. bind (walkFields fs) (\<lambda>b. Inr (a @ b)))"

text \<open>The function that \<open>collectPkgs\<close> hands to \<open>walkType\<close>, and \<open>collectPkgs\<close>.\<close>

definition collect :: "writer \<Rightarrow> TypeName \<Rightarrow> error + writer" where
  "collect w obj =
     (case obj_Pkg obj of
        None \<Rightarrow> Inr w
      | Some p \<Rightarrow>
          if p = w_pkg w then Inr w
          else (case map_of (w_pkgNames w) p of
                  Some q \<Rightarrow> Inr w
                | None \<Rightarrow>
                    bind (w_name w (pkg_Name p)) (\<lambda>(q, w').
                      Inr (w'\<lparr>w_pkgNames := w_pkgNames w' @ [(p, q)]\<rparr>))))"

fun collect_all :: "writer \<Rightarrow> TypeName list \<Rightarrow> error + writer" where
  "collect_all w [] = Inr w"
| "collect_all w (obj # objs) = bind (collect w obj) (\<lambda>w'. collect_all w' objs)"

definition collectPkgs :: "writer \<Rightarrow> Type option \<Rightarrow> error + writer" where
  "collectPkgs w t =
     (case t of
        None \<Rightarrow> Inr w
      | Some u \<Rightarrow> bind (walkType u) (\<lambda>objs. collect_all w objs))"

text \<open>
  \<open>writer.imports\<close>; the body of its loop writes one line, in three calls of
  \<open>write\<close>; the alias and the quoted path are passed as formats.
\<close>

definition import_line :: "Package \<times> string \<Rightarrow> string" where
  "import_line e =
     tab @ (if snd e \<noteq> pkg_Name (fst e) then Fprintf (snd e @ '' '') else []) @
     Fprintf (Quote (pkg_Path (fst e)) @ newline)"

definition w_imports ::
  "((Package \<times> string) list \<Rightarrow> (Package \<times> string) list) \<Rightarrow> writer \<Rightarrow> writer" where
  "w_imports rng w =
     (if length (w_pkgNames w) = 0 then w
      else w_write
             (fold (\<lambda>e w'. w_write w' (import_line e)) (rng (w_pkgNames w))
                (w_write w (''import ('' @ newline)))
             ('')'' @ newline @ newline))"

text \<open>
  \<open>newWriter\<close>, for the object of a definition and the names of the universe scope.
  An object without a package makes \<open>w.pkg.Name\<close> a nil dereference.
\<close>

definition newWriter :: "string list \<Rightarrow> TypeName \<Rightarrow> error + writer" where
  "newWriter universe obj =
     (case obj_Pkg obj of
        None \<Rightarrow> Inl nil_dereference
      | Some p \<Rightarrow>
          (case newWriter_names universe (pkg_Scope p) of
             None \<Rightarrow> Inl Diverges
           | Some ns \<Rightarrow>
               Inr \<lparr>w_src = ''package '' @ pkg_Name p @ newline @ newline, w_pkg = p,
                    w_pkgNames = [], w_names = ns, w_seqID = 0, w_seqIDs = Map.empty,
                    w_nindent = 0\<rparr>))"

text \<open>
  \<open>saveType\<close>, for the object and the underlying type of the named type: the text of
  the file.
\<close>

definition saveType ::
  "((Package \<times> string) list \<Rightarrow> (Package \<times> string) list) \<Rightarrow> string list \<Rightarrow>
   TypeName \<Rightarrow> Type option \<Rightarrow> error + string" where
  "saveType rng universe obj u =
     bind (newWriter universe obj) (\<lambda>w.
     bind (collectPkgs w u) (\<lambda>w1.
       let w2 = w_imports rng w1 in
       bind (typ_opt w2 u) (\<lambda>s.
         Inr (w_src (w_write w2 (''type '' @ obj_Name obj @ '' '' @ s))))))"

text \<open>
  An example: in package \<open>main\<close>, the type \<open>struct{f os.File; s fmt.Stringer}\<close>
  is given the name \<open>T\<close>.
\<close>

definition pkg_main :: Package where
  "pkg_main = \<lparr>pkg_Name = ''main'', pkg_Path = ''main'', pkg_Scope = [''T'']\<rparr>"

definition pkg_os :: Package where
  "pkg_os = \<lparr>pkg_Name = ''os'', pkg_Path = ''os'', pkg_Scope = []\<rparr>"

definition pkg_fmt :: Package where
  "pkg_fmt = \<lparr>pkg_Name = ''fmt'', pkg_Path = ''fmt'', pkg_Scope = []\<rparr>"

definition example_obj :: TypeName where
  "example_obj = \<lparr>obj_addr = 1, obj_Name = ''T'', obj_Pkg = Some pkg_main\<rparr>"

definition example_struct :: Type where
  "example_struct =
     Struct [Field ''f'' False [] (Named \<lparr>obj_addr = 2, obj_Name = ''File'', obj_Pkg = Some pkg_os\<rparr>
                (Struct [])),
             Field ''s'' False []
               (Named \<lparr>obj_addr = 3, obj_Name = ''Stringer'', obj_Pkg = Some pkg_fmt\<rparr>
                (Interface []))]"



section \<open>The writer: blocks (flux/writer.go)\<close>

text \<open>
  \<open>writer.block\<close> reads the graph: the ports with the name and the type of their object,
  their connections, the node that owns them and the text of their connection
  (\<open>conntxt\<close>); the connections with their two ends and the flag \<open>hidden\<close>. As for the
  index node, ports and connections are kept in a store, and reading through a key that
  is not in the store, or through an end that is \<open>nil\<close>, is a nil dereference.
\<close>

record wport =
  wp_Name :: string
  wp_Type :: "Type option"
  wp_conns :: "nat list"
  wp_node :: nat
  wp_conntxt :: string

record wconn =
  wc_src :: "nat option"
  wc_dst :: "nat option"
  wc_hidden :: bool

record wgraph =
  wg_ports :: "wport list"
  wg_conns :: "nat \<rightharpoonup> wconn"

text \<open>
  The node variants of this development: those of the first case of the type switch of
  \<open>writer.block\<close> that refer to no object and contain no function, and the raw
  statement. A node has an identity (the key of \<open>seqIDs\<close>), its input and output ports,
  and its sequencing ports if it has them.
\<close>

datatype node_kind =
    PortsNode
  | AppendNode bool
  | DeleteNode
  | LenNode
  | MakeNode "Type option"
  | OperatorNode string
  | IndexNode bool bool
  | ConvertNode "Type option"
  | TypeAssertNode "Type option"
  | BranchNode string

text \<open>
  \<open>AppendNode ellipsis\<close>; \<open>MakeNode typ\<close>, \<open>ConvertNode typ\<close> and
  \<open>TypeAssertNode typ\<close> with the type \<open>*n.typ.typ\<close>; \<open>OperatorNode op\<close>;
  \<open>IndexNode set addressable\<close>; \<open>BranchNode text\<close>.
\<close>

record node =
  n_id :: nat
  n_kind :: node_kind
  n_ins :: "nat list"
  n_outs :: "nat list"
  n_seqIn :: "nat option"
  n_seqOut :: "nat option"

record localVar =
  lv_Name :: string
  lv_Type :: "Type option"

text \<open>
  A block: its local variables and its connections (two Go maps that \<open>writer.block\<close>
  iterates over: the lists of their keys) and its nodes.
\<close>

record block =
  b_localVars :: "localVar list"
  b_conns :: "nat list"
  b_nodes :: "node list"

text \<open>
  What \<open>writer.block\<close> takes from code that is not among the sources, and from the Go
  runtime: the predicate \<open>assignable\<close> on types, the type \<open>seqType\<close> of the sequencing
  ports, the scheduler \<open>nodeOrder\<close>, which gives the order of the nodes or fails, and the
  orders in which \<open>range\<close> visits the local variables, the connections and the map
  \<open>existing\<close>.
\<close>

record env =
  env_assignable :: "Type option \<Rightarrow> Type option \<Rightarrow> bool"
  env_seqType :: "Type option"
  env_nodeOrder :: "block \<Rightarrow> error + node list"
  env_rng_localVars :: "localVar list \<Rightarrow> localVar list"
  env_rng_conns :: "nat list \<Rightarrow> nat list"
  env_rng_existing :: "(string \<times> string) list \<Rightarrow> (string \<times> string) list"

definition get_wport :: "wgraph \<Rightarrow> nat \<Rightarrow> error + wport" where
  "get_wport g i =
     (if i < length (wg_ports g) then Inr (wg_ports g ! i) else Inl nil_dereference)"

definition get_wport_opt :: "wgraph \<Rightarrow> nat option \<Rightarrow> error + wport" where
  "get_wport_opt g i = (case i of None \<Rightarrow> Inl nil_dereference | Some j \<Rightarrow> get_wport g j)"

definition get_wconn :: "wgraph \<Rightarrow> nat \<Rightarrow> error + wconn" where
  "get_wconn g c = (case wg_conns g c of None \<Rightarrow> Inl nil_dereference | Some k \<Rightarrow> Inr k)"

definition index_out_of_range :: error where
  "index_out_of_range = Panic ''index out of range''"

definition at :: "'a list \<Rightarrow> nat \<Rightarrow> error + 'a" where
  "at xs i = (if i < length xs then Inr (xs ! i) else Inl index_out_of_range)"

text \<open>
  Modelled from the spec: \<open>underlying\<close>, whose declaration is not among the sources. The
  emitter tells the "reference-like types" by the structure of a type: \<open>underlying\<close>
  gives the underlying type of a named type and every other type as it is.
\<close>

definition underlying :: "Type option \<Rightarrow> Type option" where
  "underlying t = (case t of Some (Named obj u) \<Rightarrow> Some u | _ \<Rightarrow> t)"

text \<open>
  The body of the loop over the inputs of a node, in the first case of the type switch:
  the argument for the input \<open>i\<close>, if it gives one.
\<close>

definition arg ::
  "wgraph \<Rightarrow> (nat \<rightharpoonup> string) \<Rightarrow> node \<Rightarrow> writer \<Rightarrow> nat \<Rightarrow> error + string option \<times> writer" where
  "arg g vars n w i =
     (case vars i of
        Some nm \<Rightarrow> Inr (Some nm, w)
      | None \<Rightarrow>
          if (case n_kind n of MakeNode t \<Rightarrow> True | _ \<Rightarrow> False) \<and> length (n_ins n) > 1 \<and>
             i = n_ins n ! 1
          then Inr (None, w)
          else
            bind (get_wport g i) (\<lambda>p.
              case underlying (wp_Type p) of
                None \<Rightarrow> Inr (None, w)
              | Some (Slice e) \<Rightarrow> Inr (Some ''nil'', w)
              | Some (Map k e) \<Rightarrow> Inr (Some ''nil'', w)
              | Some (Signature v ps rs) \<Rightarrow> Inr (Some ''nil'', w)
              | Some t \<Rightarrow>
                  bind (w_name w ''v'') (\<lambda>(nm, w1).
                  bind (w_typ w1 t) (\<lambda>s.
                    Inr (Some nm, w_indent w1 (''var '' @ nm @ '' '' @ s @ newline))))))"

fun args :: "wgraph \<Rightarrow> (nat \<rightharpoonup> string) \<Rightarrow> node \<Rightarrow> writer \<Rightarrow> nat list \<Rightarrow> error + string list \<times> writer"
where
  "args g vars n w [] = Inr ([], w)"
| "args g vars n w (i # is) =
     bind (arg g vars n w i) (\<lambda>(a, w1).
     bind (args g vars n w1 is) (\<lambda>(as, w2).
       Inr (opt_list a @ as, w2)))"

text \<open>
  \<open>writer.results\<close>. The map \<open>existing\<close> is the list of its entries; \<open>nil\<close> is the
  value \<open>None\<close>.
\<close>

definition put :: "string \<Rightarrow> string \<Rightarrow> (string \<times> string) list \<Rightarrow> (string \<times> string) list" where
  "put k v m = (if k \<in> fst ` set m then map (\<lambda>e. if fst e = k then (k, v) else e) m else m @ [(k, v)])"

definition var_of :: "(nat \<rightharpoonup> string) \<Rightarrow> nat option \<Rightarrow> string" where
  "var_of vars i = (case i of None \<Rightarrow> [] | Some j \<Rightarrow> (case vars j of None \<Rightarrow> [] | Some s \<Rightarrow> s))"

definition result_conn ::
  "env \<Rightarrow> wgraph \<Rightarrow> (nat \<rightharpoonup> string) \<Rightarrow> string \<Rightarrow> (string \<times> string) list \<Rightarrow> nat \<Rightarrow>
   error + (string \<times> string) list" where
  "result_conn en g vars nm existing c =
     bind (get_wconn g c) (\<lambda>k.
     bind (get_wport_opt g (wc_src k)) (\<lambda>sp.
     bind (get_wport_opt g (wc_dst k)) (\<lambda>dp.
       let v = (if \<not> env_assignable en (wp_Type sp) (wp_Type dp) then ''*'' @ nm else nm);
           v' = (if wc_hidden k then v @ ''//'' @ wp_conntxt sp else v)
       in Inr (put (var_of vars (wc_dst k)) v' existing))))"

fun result_conns ::
  "env \<Rightarrow> wgraph \<Rightarrow> (nat \<rightharpoonup> string) \<Rightarrow> string \<Rightarrow> (string \<times> string) list \<Rightarrow> nat list \<Rightarrow>
   error + (string \<times> string) list" where
  "result_conns en g vars nm existing [] = Inr existing"
| "result_conns en g vars nm existing (c # cs) =
     bind (result_conn en g vars nm existing c) (\<lambda>existing'.
       result_conns en g vars nm existing' cs)"

fun results_loop ::
  "env \<Rightarrow> wgraph \<Rightarrow> (nat \<rightharpoonup> string) \<Rightarrow> writer \<Rightarrow> (string \<times> string) list \<Rightarrow> bool \<Rightarrow> nat list \<Rightarrow>
   error + string list \<times> (string \<times> string) list \<times> bool \<times> writer" where
  "results_loop en g vars w existing any [] = Inr ([], existing, any, w)"
| "results_loop en g vars w existing any (p # ps) =
     bind (get_wport g p) (\<lambda>port.
     bind (if length (wp_conns port) > 0
           then bind (case vars p of
                        Some nm \<Rightarrow> Inr (nm, w)
                      | None \<Rightarrow> w_name w (wp_Name port)) (\<lambda>(nm, w1).
                bind (result_conns en g vars nm existing (wp_conns port)) (\<lambda>existing'.
                  Inr (nm, existing', True, w1)))
           else Inr (''_'', existing, any, w)) (\<lambda>(nm, existing', any', w1).
     bind (results_loop en g vars w1 existing' any' ps) (\<lambda>(rs, existing'', any'', w2).
       Inr (nm # rs, existing'', any'', w2))))"

definition results ::
  "env \<Rightarrow> wgraph \<Rightarrow> (nat \<rightharpoonup> string) \<Rightarrow> writer \<Rightarrow> node \<Rightarrow>
   error + string list \<times> (string \<times> string) list option \<times> writer" where
  "results en g vars w n =
     bind (results_loop en g vars w [] False (n_outs n)) (\<lambda>(rs, existing, any, w1).
       if \<not> any then Inr ([], None, w1) else Inr (rs, Some existing, w1))"

text \<open>\<open>writer.seq\<close> and \<open>writer.assignExisting\<close>.\<close>

definition has_conns :: "wgraph \<Rightarrow> nat option \<Rightarrow> bool" where
  "has_conns g p =
     (case p of
        None \<Rightarrow> False
      | Some i \<Rightarrow> i < length (wg_ports g) \<and> length (wp_conns (wg_ports g ! i)) > 0)"

definition seq_src :: "wgraph \<Rightarrow> writer \<Rightarrow> nat \<Rightarrow> error + string" where
  "seq_src g w c =
     bind (get_wconn g c) (\<lambda>k.
     bind (get_wport_opt g (wc_src k)) (\<lambda>sp.
       Inr (Itoa (case w_seqIDs w (wp_node sp) of None \<Rightarrow> 0 | Some i \<Rightarrow> i))))"

fun seq_srcs :: "wgraph \<Rightarrow> writer \<Rightarrow> nat list \<Rightarrow> error + string list" where
  "seq_srcs g w [] = Inr []"
| "seq_srcs g w (c # cs) =
     bind (seq_src g w c) (\<lambda>s. bind (seq_srcs g w cs) (\<lambda>ss. Inr (s # ss)))"

definition seq :: "wgraph \<Rightarrow> writer \<Rightarrow> node \<Rightarrow> error + writer" where
  "seq g w n =
     (let inp = has_conns g (n_seqIn n); out = has_conns g (n_seqOut n) in
      bind (if inp \<or> out
            then bind (if inp
                       then bind (get_wport_opt g (n_seqIn n)) (\<lambda>p.
                            bind (seq_srcs g w (wp_conns p)) (\<lambda>ss.
                              Inr (w_write (w_write w ''//'') (Join ss '',''))))
                       else Inr (w_write w ''//'')) (\<lambda>w1.
                 let w2 = w_write w1 '';'' in
                 if out
                 then Inr (w_write
                             (w2\<lparr>w_seqID := w_seqID w2 + 1,
                                 w_seqIDs := (w_seqIDs w2)(n_id n \<mapsto> w_seqID w2)\<rparr>)
                             (Itoa (w_seqID w2)))
                 else Inr w2)
            else Inr w) (\<lambda>w3. Inr (w_write w3 newline)))"

definition assignExisting ::
  "env \<Rightarrow> writer \<Rightarrow> (string \<times> string) list option \<Rightarrow> writer" where
  "assignExisting en w m =
     (case m of
        None \<Rightarrow> w
      | Some es \<Rightarrow>
          fold (\<lambda>e w'. w_indent w' (fst e @ '' = '' @ snd e @ newline)) (env_rng_existing en es) w)"

text \<open>
  The first case of the type switch of \<open>writer.block\<close>, for one node: the arguments, the
  results, the statement of the node, and the assignments to existing variables. (The
  raw statement has a case of its own in the switch, see \<open>emit_node\<close>.)
\<close>

definition conns_at :: "wgraph \<Rightarrow> nat list \<Rightarrow> nat \<Rightarrow> error + nat" where
  "conns_at g ps i = bind (at ps i) (\<lambda>p. bind (get_wport g p) (\<lambda>port. Inr (length (wp_conns port))))"

fun conns_count :: "wgraph \<Rightarrow> nat list \<Rightarrow> error + nat" where
  "conns_count g [] = Inr 0"
| "conns_count g (p # ps) =
     bind (get_wport g p) (\<lambda>port.
     bind (conns_count g ps) (\<lambda>c. Inr (length (wp_conns port) + c)))"

definition statement ::
  "wgraph \<Rightarrow> writer \<Rightarrow> node \<Rightarrow> string list \<Rightarrow> string list \<Rightarrow> (string \<times> string) list option \<Rightarrow>
   error + (string \<times> string) list option \<times> writer" where
  "statement g w n as rs existing =
     (case n_kind n of
        PortsNode \<Rightarrow> Inr (existing, w)
      | AppendNode ellipsis \<Rightarrow>
          bind (conns_at g (n_ins n) 0) (\<lambda>c0.
          bind (if c0 > 0 then conns_at g (n_outs n) 0 else Inr 0) (\<lambda>o0.
          bind (if c0 > 0 \<and> o0 > 0
                then bind (if ellipsis
                           then bind (at as 1) (\<lambda>a1. Inr (as[1 := a1 @ ''...'']))
                           else Inr as) (\<lambda>as'.
                     bind (at rs 0) (\<lambda>r0.
                       Inr (w_indent w (r0 @ '' := append('' @ Join as' '', '' @ '')''))))
                else Inr w) (\<lambda>w1.
          bind (seq g w1 n) (\<lambda>w2. Inr (existing, w2)))))
      | DeleteNode \<Rightarrow>
          bind (conns_at g (n_ins n) 0) (\<lambda>c0.
          bind (if c0 > 0
                then bind (at as 0) (\<lambda>a0.
                     bind (at as 1) (\<lambda>a1.
                       Inr (w_indent w (''delete('' @ a0 @ '', '' @ a1 @ '')''))))
                else Inr w) (\<lambda>w1.
          bind (seq g w1 n) (\<lambda>w2. Inr (existing, w2))))
      | LenNode \<Rightarrow>
          bind (if length rs > 0
                then bind (conns_at g (n_ins n) 0) (\<lambda>c0.
                       if c0 > 0
                       then bind (at rs 0) (\<lambda>r0.
                            bind (at as 0) (\<lambda>a0.
                              Inr (w_indent w (r0 @ '' := len('' @ a0 @ '')''))))
                       else Inr w)
                else Inr w) (\<lambda>w1.
          bind (seq g w1 n) (\<lambda>w2. Inr (existing, w2)))
      | MakeNode t \<Rightarrow>
          (if length rs > 0
           then bind (at rs 0) (\<lambda>r0.
                bind (typ_opt w t) (\<lambda>s.
                  Inr (existing,
                       w_indent w (r0 @ '' := make('' @ s @ '', '' @ Join as '', '' @ '')'' @ newline))))
           else Inr (existing, w))
      | OperatorNode op \<Rightarrow>
          bind (conns_count g (n_ins n)) (\<lambda>c.
            if c > 0 \<and> length rs > 0
            then bind (at rs 0) (\<lambda>r0.
                 bind (at as 0) (\<lambda>a0.
                   if op = ''!''
                   then Inr (existing, w_indent w (r0 @ '' := !'' @ a0 @ newline))
                   else bind (at as 1) (\<lambda>a1.
                          Inr (existing,
                               w_indent w (r0 @ '' := '' @ a0 @ '' '' @ op @ '' '' @ a1 @ newline)))))
            else Inr (None, w))
      | IndexNode set_flag addressable \<Rightarrow>
          bind (if set_flag
                then bind (at as 0) (\<lambda>a0.
                     bind (at as 1) (\<lambda>a1.
                     bind (at as 2) (\<lambda>a2.
                       Inr (w_indent w (a0 @ ''['' @ a1 @ ''] = '' @ a2)))))
                else if length rs > 0
                then bind (at as 0) (\<lambda>a0.
                     bind (at as 1) (\<lambda>a1.
                       Inr (w_indent w (Join rs '', '' @ '' := '' @
                              (if addressable then ''&'' else []) @ a0 @ ''['' @ a1 @ '']''))))
                else Inr w) (\<lambda>w1.
          bind (seq g w1 n) (\<lambda>w2. Inr (existing, w2)))
      | ConvertNode t \<Rightarrow>
          bind (conns_at g (n_ins n) 0) (\<lambda>c0.
            if c0 > 0 \<and> length rs > 0
            then bind (at rs 0) (\<lambda>r0.
                 bind (typ_opt w t) (\<lambda>s.
                 bind (at as 0) (\<lambda>a0.
                   Inr (existing, w_indent w (r0 @ '' := ('' @ s @ '')('' @ a0 @ '')'' @ newline)))))
            else Inr (existing, w))
      | TypeAssertNode t \<Rightarrow>
          bind (conns_at g (n_ins n) 0) (\<lambda>c0.
            if c0 > 0 \<and> length rs > 0
            then bind (at as 0) (\<lambda>a0.
                 bind (typ_opt w t) (\<lambda>s.
                   Inr (existing,
                        w_indent w (Join rs '', '' @ '' := '' @ a0 @ ''.('' @ s @ '')'' @ newline))))
            else Inr (existing, w))
      | BranchNode text \<Rightarrow> Inr (existing, w))"

definition emit_default ::
  "env \<Rightarrow> wgraph \<Rightarrow> (nat \<rightharpoonup> string) \<Rightarrow> writer \<Rightarrow> node \<Rightarrow> error + writer" where
  "emit_default en g vars w n =
     bind (args g vars n w (n_ins n)) (\<lambda>(as, w1).
     bind (results en g vars w1 n) (\<lambda>(rs, existing, w2).
     bind (statement g w2 n as rs existing) (\<lambda>(existing', w3).
       Inr (assignExisting en w3 existing'))))"

text \<open>One turn of the loop over the nodes: the type switch.\<close>

definition emit_node ::
  "env \<Rightarrow> wgraph \<Rightarrow> (nat \<rightharpoonup> string) \<Rightarrow> writer \<Rightarrow> node \<Rightarrow> error + writer" where
  "emit_node en g vars w n =
     (case n_kind n of
        BranchNode text \<Rightarrow> seq g (w_indentf w text) n
      | _ \<Rightarrow> emit_default en g vars w n)"

fun emit_nodes ::
  "env \<Rightarrow> wgraph \<Rightarrow> (nat \<rightharpoonup> string) \<Rightarrow> writer \<Rightarrow> node list \<Rightarrow> error + writer" where
  "emit_nodes en g vars w [] = Inr w"
| "emit_nodes en g vars w (n # ns) =
     bind (emit_node en g vars w n) (\<lambda>w1. emit_nodes en g vars w1 ns)"

text \<open>The loops of \<open>writer.block\<close> over the local variables and over the connections.\<close>

fun declare_localVars :: "writer \<Rightarrow> localVar list \<Rightarrow> error + writer" where
  "declare_localVars w [] = Inr w"
| "declare_localVars w (v # vs) =
     bind (typ_opt w (lv_Type v)) (\<lambda>s.
       declare_localVars (w_indent w (''var '' @ lv_Name v @ '' '' @ s @ ''//'' @ newline)) vs)"

definition declare_conn ::
  "env \<Rightarrow> wgraph \<Rightarrow> (nat \<rightharpoonup> string) \<times> writer \<Rightarrow> nat \<Rightarrow> error + (nat \<rightharpoonup> string) \<times> writer" where
  "declare_conn en g vw c =
     bind (get_wconn g c) (\<lambda>k.
       case wc_dst k of
         None \<Rightarrow> Inl nil_dereference
       | Some d \<Rightarrow>
           (case fst vw d of
              Some nm \<Rightarrow> Inr vw
            | None \<Rightarrow>
                bind (get_wport g d) (\<lambda>p.
                  if wp_Type p \<noteq> env_seqType en
                  then bind (collectPkgs (snd vw) (wp_Type p)) (\<lambda>w1.
                       bind (w_name w1 ''v'') (\<lambda>(nm, w2).
                       bind (typ_opt w2 (wp_Type p)) (\<lambda>s.
                         Inr ((fst vw)(d \<mapsto> nm),
                              w_indent w2 (''var '' @ nm @ '' '' @ s @ newline)))))
                  else Inr vw)))"

fun declare_conns ::
  "env \<Rightarrow> wgraph \<Rightarrow> (nat \<rightharpoonup> string) \<times> writer \<Rightarrow> nat list \<Rightarrow> error + (nat \<rightharpoonup> string) \<times> writer"
where
  "declare_conns en g vw [] = Inr vw"
| "declare_conns en g vw (c # cs) =
     bind (declare_conn en g vw c) (\<lambda>vw'. declare_conns en g vw' cs)"

text \<open>
  \<open>writer.block\<close>, for blocks of the node variants above. The map \<open>vars\<close> is copied on
  entry, so only the writer is changed.
\<close>

definition block :: "env \<Rightarrow> wgraph \<Rightarrow> block \<Rightarrow> (nat \<rightharpoonup> string) \<Rightarrow> writer \<Rightarrow> error + writer" where
  "block en g b vars w =
     bind (env_nodeOrder en b) (\<lambda>order.
       let w0 = w\<lparr>w_nindent := w_nindent w + 1\<rparr>
       in bind (declare_localVars w0 (env_rng_localVars en (b_localVars b))) (\<lambda>w1.
          bind (declare_conns en g (vars, w1) (env_rng_conns en (b_conns b))) (\<lambda>(vars', w2).
          bind (emit_nodes en g vars' w2 order) (\<lambda>w3.
            Inr (w3\<lparr>w_nindent := w_nindent w3 - 1\<rparr>)))))"

text \<open>
  Examples. A writer at the start of a function body. A make node (node 1) with the
  inputs length and capacity (ports 0 and 1, of type \<open>int\<close>, not connected) and an
  output (port 2). A block of two raw statements, \<open>break\<close> (node 1, sequencing ports
  0 and 1) and \<open>continue\<close> (node 2, sequencing ports 2 and 3), with a sequencing
  connection from each to the other (connections 0 and 1).
\<close>

definition example_writer :: writer where
  "example_writer =
     \<lparr>w_src = [], w_pkg = pkg_main, w_pkgNames = [], w_names = Map.empty, w_seqID = 0,
      w_seqIDs = Map.empty, w_nindent = 0\<rparr>"



definition make_graph :: wgraph where
  "make_graph =
     \<lparr>wg_ports =
        [\<lparr>wp_Name = ''len'', wp_Type = Some Typ_Int, wp_conns = [], wp_node = 1, wp_conntxt = []\<rparr>,
         \<lparr>wp_Name = ''cap'', wp_Type = Some Typ_Int, wp_conns = [], wp_node = 1, wp_conntxt = []\<rparr>,
         \<lparr>wp_Name = [], wp_Type = Some (Slice Typ_Int), wp_conns = [], wp_node = 1, wp_conntxt = []\<rparr>],
      wg_conns = Map.empty\<rparr>"

definition make_node :: node where
  "make_node =
     \<lparr>n_id = 1, n_kind = MakeNode (Some (Slice Typ_Int)), n_ins = [0, 1], n_outs = [2],
      n_seqIn = None, n_seqOut = None\<rparr>"





text \<open>
  Predicates for the statements about blocks. An input is the capacity of a make node
  if the node is a make node with more than one input and the input is its second. A
  type is reference-like if it is a slice, map or function type. A port is unconnected
  if it is in the store and has no connection.
\<close>

definition make_capacity :: "node \<Rightarrow> nat \<Rightarrow> bool" where
  "make_capacity n i =
     ((case n_kind n of MakeNode t \<Rightarrow> True | _ \<Rightarrow> False) \<and> length (n_ins n) > 1 \<and>
      i = n_ins n ! 1)"

definition reference_like :: "Type option \<Rightarrow> bool" where
  "reference_like t =
     (case t of
        Some (Slice e) \<Rightarrow> True
      | Some (Map k e) \<Rightarrow> True
      | Some (Signature v ps rs) \<Rightarrow> True
      | _ \<Rightarrow> False)"

definition unconnected :: "wgraph \<Rightarrow> nat \<Rightarrow> bool" where
  "unconnected g p = (p < length (wg_ports g) \<and> wp_conns (wg_ports g ! p) = [])"

text \<open>
  Modelled from the spec: \<open>block.nodeOrder\<close>, the scheduler, which is not among the
  sources. It "builds a dependency multigraph per block from (a) every data connection
  whose source node is a member of the same block, and (b) every sequence connection",
  and "produces a topological order", with ties "broken by ... original
  insertion/creation order"; "if the dependency graph contains a cycle, the operation
  fails and reports which block is cyclic". The vertices are the nodes of the block, in
  the order of their creation. A connection of the block from a port of one of them to a
  port of one of them is an edge, a data connection and a sequencing connection alike.
  The scheduler takes, again and again, the first node left that has every node it
  depends on before it; when nodes are left and none can be taken, it fails with the
  identifiers of the nodes left. Each turn takes a node, so the number of nodes bounds
  the number of turns.
\<close>

definition node_ids :: "block \<Rightarrow> nat list" where
  "node_ids b = map n_id (b_nodes b)"

definition dep :: "wgraph \<Rightarrow> block \<Rightarrow> nat \<Rightarrow> (nat \<times> nat) list" where
  "dep g b c =
     (case wg_conns g c of
        None \<Rightarrow> []
      | Some k \<Rightarrow>
          (case (wc_src k, wc_dst k) of
             (Some s, Some d) \<Rightarrow>
               if s < length (wg_ports g) \<and> d < length (wg_ports g) \<and>
                  wp_node (wg_ports g ! s) \<in> set (node_ids b) \<and>
                  wp_node (wg_ports g ! d) \<in> set (node_ids b)
               then [(wp_node (wg_ports g ! s), wp_node (wg_ports g ! d))]
               else []
           | _ \<Rightarrow> []))"

definition deps :: "wgraph \<Rightarrow> block \<Rightarrow> (nat \<times> nat) list" where
  "deps g b = concat (map (dep g b) (b_conns b))"

definition ready :: "(nat \<times> nat) list \<Rightarrow> nat list \<Rightarrow> node \<Rightarrow> bool" where
  "ready es before n = list_all (\<lambda>e. snd e = n_id n \<longrightarrow> fst e \<in> set before) es"

definition order_end :: "node list \<Rightarrow> node list \<Rightarrow> error + node list" where
  "order_end taken left = (if left = [] then Inr (rev taken) else Inl (Cyclic (map n_id left)))"

primrec order_loop ::
  "nat \<Rightarrow> (nat \<times> nat) list \<Rightarrow> node list \<Rightarrow> node list \<Rightarrow> error + node list" where
  "order_loop 0 es taken left = order_end taken left"
| "order_loop (Suc k) es taken left =
     (case find (ready es (map n_id taken)) left of
        None \<Rightarrow> order_end taken left
      | Some n \<Rightarrow> order_loop k es (n # taken) (remove1 n left))"

definition nodeOrder :: "wgraph \<Rightarrow> block \<Rightarrow> error + node list" where
  "nodeOrder g b = order_loop (length (b_nodes b)) (deps g b) [] (b_nodes b)"

text \<open>
  The dependency graph of a block contains a cycle if a node of the block is reached
  from itself along its edges.
\<close>

definition has_cycle :: "wgraph \<Rightarrow> block \<Rightarrow> bool" where
  "has_cycle g b = (\<exists>n \<in> set (node_ids b). (n, n) \<in> trancl (set (deps g b)))"












section \<open>The hasher of the type map\<close>

text \<open>
  \<open>typemap.Hasher\<close>: a memo from types to hash values. In Go the memo is keyed by the
  pointer to a type; here a type is its value, and two types that are equal as values
  share an entry. \<open>MakeHasher\<close> gives the empty memo.
\<close>

type_synonym Hasher = "Type \<rightharpoonup> 32 word"

definition MakeHasher :: Hasher where
  "MakeHasher = Map.empty"

text \<open>\<open>hashString\<close>: the loop over the bytes of the string, in \<open>uint32\<close>.\<close>

definition hashString :: "string \<Rightarrow> 32 word" where
  "hashString s = fold (\<lambda>c h. (xor h (of_char c)) * 16777619) s 0"

text \<open>
  The values of \<open>ast.ChanDir\<close>: \<open>SEND\<close> is 1, \<open>RECV\<close> is 2, and a channel of both
  directions has their union.
\<close>

definition dir_code :: "ChanDir \<Rightarrow> 32 word" where
  "dir_code d = (case d of SendOnly \<Rightarrow> 1 | RecvOnly \<Rightarrow> 2 | SendRecv \<Rightarrow> 3)"

text \<open>The panic at the end of \<open>hashFor\<close>, for a type that is none of the cases.\<close>

definition unhashable :: error where
  "unhashable = Panic ''typemap: unexpected type''"

text \<open>
  \<open>Hasher.Hash\<close>, \<open>Hasher.hashFor\<close> and \<open>Hasher.hashTuple\<close>, with the memo passed on
  from call to call. The loops of \<open>hashFor\<close> over the fields of a struct and the methods
  of an interface, and the loop of \<open>hashTuple\<close>, carry the sum so far. The parameters
  and the results of a signature are tuples.
\<close>

fun Hash :: "Hasher \<Rightarrow> Type \<Rightarrow> error + 32 word \<times> Hasher"
and hashFor :: "Hasher \<Rightarrow> Type \<Rightarrow> error + 32 word \<times> Hasher"
and hashTuple :: "Hasher \<Rightarrow> Var list \<Rightarrow> error + 32 word \<times> Hasher"
and hashVars :: "Hasher \<Rightarrow> 32 word \<Rightarrow> Var list \<Rightarrow> error + 32 word \<times> Hasher"
and hashFields :: "Hasher \<Rightarrow> 32 word \<Rightarrow> Field list \<Rightarrow> error + 32 word \<times> Hasher"
and hashMethods :: "Hasher \<Rightarrow> 32 word \<Rightarrow> Method list \<Rightarrow> error + 32 word \<times> Hasher"
where
  "Hash h t =
     (case h t of
        Some hash \<Rightarrow> Inr (hash, h)
      | None \<Rightarrow> bind (hashFor h t) (\<lambda>(hash, h1). Inr (hash, h1(t \<mapsto> hash))))"
| "hashFor h (Basic kind nm) = Inr (ucast kind, h)"
| "hashFor h (Array len e) =
     bind (Hash h e) (\<lambda>(x, h1). Inr (9043 + 2 * ucast len + 3 * x, h1))"
| "hashFor h (Slice e) = bind (Hash h e) (\<lambda>(x, h1). Inr (9049 + 2 * x, h1))"
| "hashFor h (Struct fs) = hashFields h 9059 fs"
| "hashFor h (Pointer e) = bind (Hash h e) (\<lambda>(x, h1). Inr (9067 + 2 * x, h1))"
| "hashFor h (Signature variadic ps rs) =
     bind (hashTuple h ps) (\<lambda>(x, h1).
     bind (hashTuple h1 rs) (\<lambda>(y, h2).
       Inr ((if variadic then 9091 * 8863 else 9091) + 3 * x + 5 * y, h2)))"
| "hashFor h (Interface ms) = hashMethods h 9103 ms"
| "hashFor h (Map k e) =
     bind (Hash h k) (\<lambda>(x, h1).
     bind (Hash h1 e) (\<lambda>(y, h2). Inr (9109 + 2 * x + 3 * y, h2)))"
| "hashFor h (Chan d e) =
     bind (Hash h e) (\<lambda>(x, h1). Inr (9127 + 2 * dir_code d + 3 * x, h1))"
| "hashFor h (Named obj u) = Inr (ucast (obj_addr obj), h)"
| "hashFor h (Tuple vs) = hashTuple h vs"
| "hashFor h generic = Inl unhashable"
| "hashTuple h vs = hashVars h (9137 + 2 * of_nat (length vs)) vs"
| "hashVars h hash [] = Inr (hash, h)"
| "hashVars h hash (Var nm t # vs) =
     bind (Hash h t) (\<lambda>(x, h1). hashVars h1 (hash + 3 * x) vs)"
| "hashFields h hash [] = Inr (hash, h)"
| "hashFields h hash (Field nm anonymous tag t # fs) =
     bind (Hash h t) (\<lambda>(x, h1).
       hashFields h1
         ((if anonymous then hash + 8861 else hash) + hashString tag + hashString nm + x) fs)"
| "hashMethods h hash [] = Inr (hash, h)"
| "hashMethods h hash (Method nm t # ms) =
     bind (Hash h t) (\<lambda>(x, h1). hashMethods h1 (hash + (3 * hashString nm + 5 * x)) ms)"

declare Hash.simps [simp del]

text \<open>
  A hasher in use: the memo after the calls of \<open>Hash\<close> made on it so far, on the types
  of a list, in turn.
\<close>

fun hash_calls :: "Hasher \<Rightarrow> Type list \<Rightarrow> error + Hasher" where
  "hash_calls h [] = Inr h"
| "hash_calls h (t # ts) = bind (Hash h t) (\<lambda>(x, h1). hash_calls h1 ts)"

text \<open>
  Modelled from the spec: \<open>types.IsIdentical\<close>, which is not among the sources. The
  relation is the identity of types of the language, to which the comments of the
  hasher refer: a type is identical to itself; basic types are identical if they are of
  the same kind; array types, if they have the same length and identical element types;
  slice, pointer, map and channel types, if their parts are identical (and the direction
  of the channels is the same); struct types, if they have the same sequence of fields,
  with the same names, tags and embedding and identical types; tuples, if they have the
  same number of elements, of identical types; signatures, if both or none is variadic
  and the parameters and the results are identical tuples; interface types, if they have
  the same methods, with the same names and identical types, in any order; named types,
  if they have the same object.
\<close>

inductive IsIdentical :: "Type \<Rightarrow> Type \<Rightarrow> bool"
and identicalTypes :: "Var list \<Rightarrow> Var list \<Rightarrow> bool"
and identicalFields :: "Field list \<Rightarrow> Field list \<Rightarrow> bool"
and identicalMethods :: "Method list \<Rightarrow> Method list \<Rightarrow> bool"
where
  same: "IsIdentical t t"
| basic: "kind = kind' \<Longrightarrow> IsIdentical (Basic kind nm) (Basic kind' nm')"
| array: "len = len' \<Longrightarrow> IsIdentical e e' \<Longrightarrow> IsIdentical (Array len e) (Array len' e')"
| slice: "IsIdentical e e' \<Longrightarrow> IsIdentical (Slice e) (Slice e')"
| struct: "identicalFields fs fs' \<Longrightarrow> IsIdentical (Struct fs) (Struct fs')"
| pointer: "IsIdentical e e' \<Longrightarrow> IsIdentical (Pointer e) (Pointer e')"
| tuple: "identicalTypes vs vs' \<Longrightarrow> IsIdentical (Tuple vs) (Tuple vs')"
| signature:
    "variadic = variadic' \<Longrightarrow> identicalTypes ps ps' \<Longrightarrow> identicalTypes rs rs' \<Longrightarrow>
     IsIdentical (Signature variadic ps rs) (Signature variadic' ps' rs')"
| interface: "identicalMethods ms ms' \<Longrightarrow> IsIdentical (Interface ms) (Interface ms')"
| map: "IsIdentical k k' \<Longrightarrow> IsIdentical e e' \<Longrightarrow> IsIdentical (Map k e) (Map k' e')"
| chan: "d = d' \<Longrightarrow> IsIdentical e e' \<Longrightarrow> IsIdentical (Chan d e) (Chan d' e')"
| named: "obj_addr obj = obj_addr obj' \<Longrightarrow> IsIdentical (Named obj u) (Named obj' u')"
| types_nil: "identicalTypes [] []"
| types_cons:
    "IsIdentical t t' \<Longrightarrow> identicalTypes vs vs' \<Longrightarrow>
     identicalTypes (Var nm t # vs) (Var nm' t' # vs')"
| fields_nil: "identicalFields [] []"
| fields_cons:
    "nm = nm' \<Longrightarrow> anonymous = anonymous' \<Longrightarrow> tag = tag' \<Longrightarrow> IsIdentical t t' \<Longrightarrow>
     identicalFields fs fs' \<Longrightarrow>
     identicalFields (Field nm anonymous tag t # fs) (Field nm' anonymous' tag' t' # fs')"
| methods_nil: "identicalMethods [] []"
| methods_cons:
    "Method nm t' \<in> set ms' \<Longrightarrow> IsIdentical t t' \<Longrightarrow>
     identicalMethods ms (remove1 (Method nm t') ms') \<Longrightarrow>
     identicalMethods (Method nm t # ms) ms'"

code_pred IsIdentical .

text \<open>
  The types that \<open>hashFor\<close> has a case for, with all the parts that it hashes; the
  underlying type of a named type is not one of them. And the value that \<open>Hash\<close>
  gives to such a type, without the memo.
\<close>

fun hashable :: "Type \<Rightarrow> bool"
and hashableVars :: "Var list \<Rightarrow> bool"
and hashableFields :: "Field list \<Rightarrow> bool"
and hashableMethods :: "Method list \<Rightarrow> bool"
where
  "hashable (Basic kind nm) = True"
| "hashable (Array len e) = hashable e"
| "hashable (Slice e) = hashable e"
| "hashable (Struct fs) = hashableFields fs"
| "hashable (Pointer e) = hashable e"
| "hashable (Signature variadic ps rs) = (hashableVars ps \<and> hashableVars rs)"
| "hashable (Interface ms) = hashableMethods ms"
| "hashable (Map k e) = (hashable k \<and> hashable e)"
| "hashable (Chan d e) = hashable e"
| "hashable (Named obj u) = True"
| "hashable (Tuple vs) = hashableVars vs"
| "hashable generic = False"
| "hashableVars [] = True"
| "hashableVars (Var nm t # vs) = (hashable t \<and> hashableVars vs)"
| "hashableFields [] = True"
| "hashableFields (Field nm anonymous tag t # fs) = (hashable t \<and> hashableFields fs)"
| "hashableMethods [] = True"
| "hashableMethods (Method nm t # ms) = (hashable t \<and> hashableMethods ms)"

fun hashOf :: "Type \<Rightarrow> 32 word"
and hashOfVars :: "Var list \<Rightarrow> 32 word"
and hashOfFields :: "Field list \<Rightarrow> 32 word"
and hashOfMethods :: "Method list \<Rightarrow> 32 word"
where
  "hashOf (Basic kind nm) = ucast kind"
| "hashOf (Array len e) = 9043 + 2 * ucast len + 3 * hashOf e"
| "hashOf (Slice e) = 9049 + 2 * hashOf e"
| "hashOf (Struct fs) = 9059 + hashOfFields fs"
| "hashOf (Pointer e) = 9067 + 2 * hashOf e"
| "hashOf (Signature variadic ps rs) =
     (if variadic then 9091 * 8863 else 9091) +
     3 * (9137 + 2 * of_nat (length ps) + hashOfVars ps) +
     5 * (9137 + 2 * of_nat (length rs) + hashOfVars rs)"
| "hashOf (Interface ms) = 9103 + hashOfMethods ms"
| "hashOf (Map k e) = 9109 + 2 * hashOf k + 3 * hashOf e"
| "hashOf (Chan d e) = 9127 + 2 * dir_code d + 3 * hashOf e"
| "hashOf (Named obj u) = ucast (obj_addr obj)"
| "hashOf (Tuple vs) = 9137 + 2 * of_nat (length vs) + hashOfVars vs"
| "hashOf generic = 0"
| "hashOfVars [] = 0"
| "hashOfVars (Var nm t # vs) = 3 * hashOf t + hashOfVars vs"
| "hashOfFields [] = 0"
| "hashOfFields (Field nm anonymous tag t # fs) =
     (if anonymous then 8861 else 0) + hashString tag + hashString nm + hashOf t + hashOfFields fs"
| "hashOfMethods [] = 0"
| "hashOfMethods (Method nm t # ms) = 3 * hashString nm + 5 * hashOf t + hashOfMethods ms"

text \<open>
  The memo of a hasher is in order if each of its entries is for a type that can be
  hashed and holds the value of that type.
\<close>

definition memo_ok :: "Hasher \<Rightarrow> bool" where
  "memo_ok h = (\<forall>t x. h t = Some x \<longrightarrow> hashable t \<and> x = hashOf t)"

text \<open>
  The result of a call is as expected: for a type that can be hashed, the call returns
  the value, with a memo that is in order; for another type, it panics.
\<close>

definition hashes_to :: "error + 32 word \<times> Hasher \<Rightarrow> bool \<Rightarrow> 32 word \<Rightarrow> bool" where
  "hashes_to r ok x = (if ok then (\<exists>h. r = Inr (x, h) \<and> memo_ok h) else r = Inl unhashable)"

text \<open>
  Examples: the interface types \<open>interface{Len() int; Close()}\<close> and
  \<open>interface{Close(); Len() int}\<close>.
\<close>

definition example_iface :: Type where
  "example_iface =
     Interface [Method ''Len'' (Signature False [] [Var [] Typ_Int]),
                Method ''Close'' (Signature False [] [])]"

definition example_iface' :: Type where
  "example_iface' =
     Interface [Method ''Close'' (Signature False [] []),
                Method ''Len'' (Signature False [] [Var ''n'' Typ_Int])]"



section \<open>Facts about the name allocator\<close>

lemma decimal_nonempty: "decimal n \<noteq> []"
  by (subst decimal.simps) simp

lemma Itoa_nonempty: "Itoa i \<noteq> []"
  by (simp add: Itoa_def decimal_nonempty)

lemma base_name_nonempty: "base_name s \<noteq> []"
  by (simp add: base_name_def)

lemma base_name_not_blank: "base_name s \<noteq> ''_''"
  by (simp add: base_name_def)

lemma Itoa_length: "1 \<le> length (Itoa i)"
  using Itoa_nonempty [of i] by (cases "Itoa i") simp_all

lemma base_name_length: "1 \<le> length (base_name s)"
  using base_name_nonempty [of s] by (cases "base_name s") simp_all

lemma base_name_suffixed: "base_name (base_name s @ Itoa i) = base_name s @ Itoa i"
proof -
  have len: "2 \<le> length (base_name s @ Itoa i)"
    unfolding length_append using base_name_length [of s] Itoa_length [of i] by linarith
  have "base_name s @ Itoa i \<noteq> ''_''"
  proof
    assume "base_name s @ Itoa i = ''_''"
    then have "length (base_name s @ Itoa i) = length ''_''"
      by (rule arg_cong)
    with len show False
      by simp
  qed
  moreover have "base_name s @ Itoa i \<noteq> []"
    by (simp add: base_name_nonempty)
  ultimately show ?thesis
    by (simp add: base_name_def)
qed

lemma name_free:
  assumes "names (base_name s) = None"
  shows "name names s = Some (base_name s, names(base_name s \<mapsto> 2))"
  using assms by (subst name.simps) (simp add: Let_def)

lemma name_taken:
  assumes "names (base_name s) = Some i"
  shows "name names s = name (names(base_name s \<mapsto> i + 1)) (base_name s @ Itoa i)"
  using assms by (subst name.simps) (simp add: Let_def)

lemma name_returns_bounded:
  "(\<forall>k \<in> dom names. length k \<le> L) \<Longrightarrow> Suc L - length (base_name s) \<le> n \<Longrightarrow>
   \<exists>r names'. name names s = Some (r, names') \<and> r \<notin> dom names \<and>
     dom names' = insert r (dom names) \<and> r \<noteq> '''' \<and> r \<noteq> ''_'' \<and> base_name s \<in> dom names'"
proof (induction n arbitrary: names s)
  case 0
  then have "L < length (base_name s)"
    by simp
  with "0.prems"(1) have "base_name s \<notin> dom names"
    by (meson not_le)
  then have free: "names (base_name s) = None"
    by (simp add: domIff)
  show ?case
    using name_free [of names s] free \<open>base_name s \<notin> dom names\<close>
      base_name_nonempty [of s] base_name_not_blank [of s] by auto
next
  case (Suc n)
  show ?case
  proof (cases "names (base_name s)")
    case None
    then have "base_name s \<notin> dom names"
      by (simp add: domIff)
    then show ?thesis
      using name_free [of names s] None base_name_nonempty [of s] base_name_not_blank [of s] by auto
  next
    case (Some i)
    let ?s = "base_name s"
    let ?names = "names(?s \<mapsto> i + 1)"
    have in_dom: "?s \<in> dom names"
      using Some by (simp add: domI)
    have same_dom: "dom ?names = dom names"
      using in_dom by auto
    have "length ?s \<le> L"
      using Suc.prems(1) in_dom by blast
    then have "Suc L - length (base_name (?s @ Itoa i)) \<le> n"
      unfolding base_name_suffixed length_append
      using Suc.prems(2) Itoa_length [of i] by linarith
    moreover have "\<forall>k \<in> dom ?names. length k \<le> L"
      using Suc.prems(1) same_dom by simp
    ultimately obtain r names' where
      r: "name ?names (?s @ Itoa i) = Some (r, names')" "r \<notin> dom ?names"
         "dom names' = insert r (dom ?names)" "r \<noteq> ''''" "r \<noteq> ''_''"
      using Suc.IH [of ?names "?s @ Itoa i"] by blast
    have "name names s = Some (r, names')"
      using name_taken [of names s i] Some r(1) by simp
    then show ?thesis
      using r same_dom in_dom by auto
  qed
qed

lemma finite_dom_bounded:
  assumes "finite (dom (names :: names))"
  shows "\<exists>L. \<forall>k \<in> dom names. length k \<le> L"
proof -
  have "finite (length ` dom names)"
    using assms by simp
  then obtain L where "\<forall>n \<in> length ` dom names. n \<le> L"
    using finite_nat_set_iff_bounded_le by blast
  then show ?thesis
    by blast
qed

lemma name_returns:
  assumes "finite (dom names)"
  shows "\<exists>r names'. name names s = Some (r, names') \<and> r \<notin> dom names \<and>
     dom names' = insert r (dom names) \<and> r \<noteq> '''' \<and> r \<noteq> ''_'' \<and> base_name s \<in> dom names'"
proof -
  obtain L where "\<forall>k \<in> dom names. length k \<le> L"
    using finite_dom_bounded [OF assms] by blast
  then show ?thesis
    using name_returns_bounded [of names L s "Suc L - length (base_name s)"] by simp
qed

lemma name_all_returns:
  "finite (dom names) \<Longrightarrow>
   \<exists>rs names'. name_all names cs = Some (rs, names') \<and> distinct rs \<and> set rs \<inter> dom names = {} \<and>
     dom names' = dom names \<union> set rs \<and> length rs = length cs \<and>
     [] \<notin> set rs \<and> ''_'' \<notin> set rs \<and> base_name ` set cs \<subseteq> dom names'"
proof (induction cs arbitrary: names)
  case Nil
  then show ?case by simp
next
  case (Cons c cs)
  from name_returns [OF Cons.prems, of c] obtain r names1 where
    r1: "name names c = Some (r, names1)" and r2: "r \<notin> dom names"
    and r3: "dom names1 = insert r (dom names)" and r4: "r \<noteq> []" and r5: "r \<noteq> ''_''"
    and r6: "base_name c \<in> dom names1"
    by (elim exE conjE)
  have "finite (dom names1)"
    using r3 Cons.prems by simp
  from Cons.IH [OF this] obtain rs names2 where
    s1: "name_all names1 cs = Some (rs, names2)" and s2: "distinct rs"
    and s3: "set rs \<inter> dom names1 = {}" and s4: "dom names2 = dom names1 \<union> set rs"
    and s5: "length rs = length cs" and s6: "[] \<notin> set rs" and s7: "''_'' \<notin> set rs"
    and s8: "base_name ` set cs \<subseteq> dom names2"
    by (elim exE conjE)
  have t1: "name_all names (c # cs) = Some (r # rs, names2)"
    by (simp add: r1 s1)
  have t2: "distinct (r # rs)"
    using s2 s3 r3 by auto
  have t3: "set (r # rs) \<inter> dom names = {}"
    using s3 r2 r3 by auto
  have t4: "dom names2 = dom names \<union> set (r # rs)"
    using s4 r3 by auto
  have t5: "length (r # rs) = length (c # cs)"
    using s5 by simp
  have t6: "[] \<notin> set (r # rs)" and t7: "''_'' \<notin> set (r # rs)"
    using s6 s7 r4 r5 by auto
  have t8: "base_name ` set (c # cs) \<subseteq> dom names2"
    using s4 s8 r6 by auto
  show ?case
    by (intro exI [of _ "r # rs"] exI [of _ names2] conjI t1 t2 t3 t4 t5 t6 t7 t8)
qed

lemma base_name_cases: "base_name c = c \<or> c = '''' \<or> c = ''_''"
  by (simp add: base_name_def)

lemma base_name_idem: "base_name (base_name s) = base_name s"
  by (simp add: base_name_def)

lemma name_base_name: "name names (base_name s) = name names s"
  by (simp add: name.simps [of names s] name.simps [of names "base_name s"] base_name_idem)


section \<open>The claims about the name allocator\<close>

text \<open>
  Claim C10. The name allocator terminates on every candidate and every finite map of
  occupied names: the call returns an identifier that was not a key of the map, and
  adds just that key. While the candidate is occupied, each recursive call has a strictly
  longer candidate and the same set of keys.
\<close>

theorem name_terminates:
  assumes "finite (dom names)"
  shows "(\<exists>r names'. name names s = Some (r, names') \<and> r \<notin> dom names \<and>
            dom names' = insert r (dom names)) \<and>
         (\<forall>i. names (base_name s) = Some i \<longrightarrow>
            name names s = name (names(base_name s \<mapsto> i + 1)) (base_name s @ Itoa i) \<and>
            length (base_name s) < length (base_name s @ Itoa i) \<and>
            dom (names(base_name s \<mapsto> i + 1)) = dom names)"
proof -
  from name_returns [OF assms, of s] obtain r names' where
    "name names s = Some (r, names')" "r \<notin> dom names" "dom names' = insert r (dom names)"
    by (elim exE conjE)
  then have returns: "\<exists>r names'. name names s = Some (r, names') \<and> r \<notin> dom names \<and>
          dom names' = insert r (dom names)"
    by (intro exI [of _ r] exI [of _ names'] conjI)
  have longer: "length (base_name s) < length (base_name s @ Itoa i)" for i
    unfolding length_append using Itoa_length [of i] by linarith
  have same: "dom (names(base_name s \<mapsto> i + 1)) = dom names"
    if "names (base_name s) = Some i" for i
    using that by auto
  show ?thesis
    using returns longer same name_taken [of names s] by simp
qed

theorem name_terminates_witness:
  "finite (dom [''v'' \<mapsto> 2 :: goint, ''v2'' \<mapsto> 2]) \<and>
   map_option fst (name [''v'' \<mapsto> 2, ''v2'' \<mapsto> 2] ''v'') = Some ''v22'' \<and>
   (\<exists>r names'. name [''v'' \<mapsto> 2, ''v2'' \<mapsto> 2] ''v'' = Some (r, names') \<and>
      r \<notin> dom [''v'' \<mapsto> 2 :: goint, ''v2'' \<mapsto> 2] \<and>
      dom names' = insert r (dom [''v'' \<mapsto> 2 :: goint, ''v2'' \<mapsto> 2]))"
proof -
  have fin: "finite (dom [''v'' \<mapsto> 2 :: goint, ''v2'' \<mapsto> 2])"
    by simp
  have run: "map_option fst (name [''v'' \<mapsto> 2, ''v2'' \<mapsto> 2] ''v'') = Some ''v22''"
    by (simp add: name.simps base_name_def Let_def Itoa_def decimal.simps digit_def)
  note returns = name_terminates [OF fin, of "''v''", THEN conjunct1]
  show ?thesis
    by (intro conjI fin run returns)
qed

text \<open>
  Claim C4. In one session, that is after \<open>newWriter\<close> has seeded the map with the
  universe and package names, every sequence of allocations returns: the identifiers
  returned are pairwise distinct and none of them is a seeded name. An empty or blank
  candidate is allocated as the candidate \<open>x\<close> is, and an occupied candidate is retried
  with its counter appended.
\<close>

theorem name_hygiene:
  "(\<exists>seeded rs names'.
      newWriter_names universe scope = Some seeded \<and>
      name_all seeded cs = Some (rs, names') \<and> length rs = length cs \<and>
      distinct rs \<and> set rs \<inter> (set universe \<union> set scope) = {}) \<and>
   name names '''' = name names ''x'' \<and> name names ''_'' = name names ''x'' \<and>
   (\<forall>i. names (base_name s) = Some i \<longrightarrow>
      name names s = name (names(base_name s \<mapsto> i + 1)) (base_name s @ Itoa i))"
proof -
  have "finite (dom (Map.empty :: names))"
    by simp
  from name_all_returns [OF this, of "universe @ scope"] obtain seeds seeded where
    seeded: "name_all Map.empty (universe @ scope) = Some (seeds, seeded)"
    and dom_seeded: "dom seeded = dom (Map.empty :: names) \<union> set seeds"
    and seeds_in: "base_name ` set (universe @ scope) \<subseteq> dom seeded"
    by (elim exE conjE)
  have "finite (dom seeded)"
    using dom_seeded by simp
  from name_all_returns [OF this, of cs] obtain rs names' where
    rs: "name_all seeded cs = Some (rs, names')" and dist: "distinct rs"
    and fresh: "set rs \<inter> dom seeded = {}" and len: "length rs = length cs"
    and ne: "[] \<notin> set rs" and nb: "''_'' \<notin> set rs"
    by (elim exE conjE)
  have "r \<notin> set universe \<union> set scope" if "r \<in> set rs" for r
  proof
    assume "r \<in> set universe \<union> set scope"
    then have "base_name r \<in> dom seeded"
      using seeds_in by auto
    moreover have "base_name r = r"
      using base_name_cases [of r] that ne nb by auto
    ultimately show False
      using fresh that by auto
  qed
  then have disj: "set rs \<inter> (set universe \<union> set scope) = {}"
    by blast
  have new: "newWriter_names universe scope = Some seeded"
    using seeded by (simp add: newWriter_names_def)
  have session: "\<exists>seeded rs names'.
      newWriter_names universe scope = Some seeded \<and>
      name_all seeded cs = Some (rs, names') \<and> length rs = length cs \<and>
      distinct rs \<and> set rs \<inter> (set universe \<union> set scope) = {}"
    by (intro exI [of _ seeded] exI [of _ rs] exI [of _ names'] conjI new rs len dist disj)
  have blank: "name names [] = name names ''x''" "name names ''_'' = name names ''x''"
    using name_base_name [of names "[]"] name_base_name [of names "''_''"]
    by (simp_all add: base_name_def)
  have retry: "\<forall>i. names (base_name s) = Some i \<longrightarrow>
      name names s = name (names(base_name s \<mapsto> i + 1)) (base_name s @ Itoa i)"
    using name_taken [of names s] by simp
  show ?thesis
    by (intro conjI session blank retry)
qed

theorem name_hygiene_witness:
  "map_option fst (name_all (the (newWriter_names [''int'', ''len''] [''main'', ''v'']))
      [''v'', [], ''v'', ''_'', ''len''])
     = Some [''v2'', ''x'', ''v3'', ''x2'', ''len2''] \<and>
   (\<exists>seeded rs names'.
      newWriter_names [''int'', ''len''] [''main'', ''v''] = Some seeded \<and>
      name_all seeded [''v'', [], ''v'', ''_'', ''len''] = Some (rs, names') \<and>
      length rs = length [''v'', [], ''v'', ''_'', ''len''] \<and>
      distinct rs \<and> set rs \<inter> (set [''int'', ''len''] \<union> set [''main'', ''v'']) = {})"
proof -
  have run: "map_option fst (name_all (the (newWriter_names [''int'', ''len''] [''main'', ''v'']))
      [''v'', [], ''v'', ''_'', ''len''])
     = Some [''v2'', ''x'', ''v3'', ''x2'', ''len2'']"
    by (simp add: newWriter_names_def name.simps base_name_def Let_def Itoa_def
        decimal.simps digit_def)
  note session = name_hygiene [of "[''int'', ''len'']" "[''main'', ''v'']"
        "[''v'', [], ''v'', ''_'', ''len'']" Map.empty "''x''", THEN conjunct1]
  show ?thesis
    by (intro conjI run session)
qed


section \<open>The claim about the iteration node\<close>

lemma remove_second_length:
  "length (inputsNode_outs n) = 1 \<or> length (inputsNode_outs n) = 2 \<Longrightarrow>
   length (inputsNode_outs (remove_second n)) = 1"
  by (auto simp: remove_second_def)

lemma add_second_length:
  "length (inputsNode_outs n) = 1 \<or> length (inputsNode_outs n) = 2 \<Longrightarrow>
   length (inputsNode_outs (add_second n)) = 2"
  by (auto simp: add_second_def newOutput_def)

lemma remove_second_first:
  "length (inputsNode_outs n) = 1 \<or> length (inputsNode_outs n) = 2 \<Longrightarrow>
   inputsNode_outs (remove_second n) ! 0 = inputsNode_outs n ! 0"
  by (auto simp: remove_second_def)

lemma add_second_first:
  "length (inputsNode_outs n) = 1 \<or> length (inputsNode_outs n) = 2 \<Longrightarrow>
   inputsNode_outs (add_second n) ! 0 = inputsNode_outs n ! 0"
  by (auto simp: add_second_def newOutput_def nth_append)

lemma newLoopNode_length: "length (inputsNode_outs newLoopNode) = 1"
  by (simp add: newLoopNode_def newOutput_def remove_second_def)

text \<open>
  Claim C5, as stated, asks for the second binding output when the input type is a
  channel. A fresh iteration node has one binding output; after a map type it has two;
  after a channel type it has one again.
\<close>

theorem loop_chan_counterexample:
  "length (inputsNode_outs (loopNode_updateInputType newLoopNode (Some (Map Typ_Int Typ_Bool)))) = 2 \<and>
   length (inputsNode_outs (loopNode_updateInputType
      (loopNode_updateInputType newLoopNode (Some (Map Typ_Int Typ_Bool)))
      (Some (Chan SendRecv Typ_Int)))) \<noteq> 2 \<and>
   length (inputsNode_outs (loopNode_updateInputType newLoopNode (Some (Chan SendRecv Typ_Int)))) \<noteq> 2"
  by (simp add: newLoopNode_def newOutput_def remove_second_def add_second_def)

text \<open>
  Claim C5, amended. For an iteration node with one or two binding outputs (every node
  made by \<open>newLoopNode\<close> and changed by recomputations only is one): after a
  recomputation with no type, a named type or a channel type the inner block has one
  binding output; with an array, slice or map type it has two; with any other type the
  node is unchanged. The first binding output is never replaced, and the node has one or
  two binding outputs afterwards.
\<close>

theorem loop_bindings:
  assumes "length (inputsNode_outs n) = 1 \<or> length (inputsNode_outs n) = 2"
  shows "length (inputsNode_outs (loopNode_updateInputType n None)) = 1 \<and>
         length (inputsNode_outs (loopNode_updateInputType n (Some (Named obj u)))) = 1 \<and>
         length (inputsNode_outs (loopNode_updateInputType n (Some (Chan d e)))) = 1 \<and>
         length (inputsNode_outs (loopNode_updateInputType n (Some (Array l e)))) = 2 \<and>
         length (inputsNode_outs (loopNode_updateInputType n (Some (Slice e)))) = 2 \<and>
         length (inputsNode_outs (loopNode_updateInputType n (Some (Map k e)))) = 2 \<and>
         loopNode_updateInputType n (Some (Basic kd nm)) = n \<and>
         loopNode_updateInputType n (Some (Pointer e)) = n \<and>
         loopNode_updateInputType n (Some (Struct fs)) = n \<and>
         loopNode_updateInputType n (Some (Signature v ps rs)) = n \<and>
         loopNode_updateInputType n (Some (Interface ms)) = n \<and>
         inputsNode_outs (loopNode_updateInputType n t) ! 0 = inputsNode_outs n ! 0 \<and>
         (length (inputsNode_outs (loopNode_updateInputType n t)) = 1 \<or>
          length (inputsNode_outs (loopNode_updateInputType n t)) = 2)"
proof -
  note r = remove_second_length [OF assms] and a = add_second_length [OF assms]
  have first: "inputsNode_outs (loopNode_updateInputType n t) ! 0 = inputsNode_outs n ! 0"
    using remove_second_first [OF assms] add_second_first [OF assms]
    by (cases "(n, t)" rule: loopNode_updateInputType.cases) simp_all
  have count: "length (inputsNode_outs (loopNode_updateInputType n t)) = 1 \<or>
      length (inputsNode_outs (loopNode_updateInputType n t)) = 2"
    using r a assms
    by (cases "(n, t)" rule: loopNode_updateInputType.cases) simp_all
  show ?thesis
    using r a first count by simp
qed

theorem loop_bindings_witness:
  "(length (inputsNode_outs newLoopNode) = 1 \<or> length (inputsNode_outs newLoopNode) = 2) \<and>
   length (inputsNode_outs (loopNode_updateInputType newLoopNode (Some (Chan SendRecv Typ_Int)))) = 1 \<and>
   length (inputsNode_outs (loopNode_updateInputType newLoopNode (Some (Slice Typ_Int)))) = 2"
proof -
  have h: "length (inputsNode_outs newLoopNode) = 1 \<or> length (inputsNode_outs newLoopNode) = 2"
    by (simp add: newLoopNode_length)
  show ?thesis
    using h loop_bindings [OF h, of _ _ SendRecv Typ_Int] by simp
qed


section \<open>Facts about the index node\<close>

lemma bind_Inr: "bind (Inr v) f = f v"
  by (simp add: bind_def)

lemma bind_Inl: "bind (Inl e) f = Inl e"
  by (simp add: bind_def)

lemma get_port_ok: "i < length (ports g) \<Longrightarrow> get_port g i = Inr (ports g ! i)"
  by (simp add: get_port_def)

lemma port_ok_get: "port_ok g i \<Longrightarrow> get_port g i = Inr (ports g ! i)"
  by (simp add: port_ok_def get_port_def)

lemma first_src_empty: "conns p = [] \<Longrightarrow> first_src g p = Inr None"
  by (simp add: first_src_def)

lemma first_src_ok:
  assumes "list_all (conn_ok g) (conns p)"
  shows "\<exists>r. first_src g p = Inr r"
proof (cases "conns p")
  case Nil
  then show ?thesis
    by (simp add: first_src_def)
next
  case (Cons c cs)
  with assms have "conn_ok g c"
    by simp
  then show ?thesis
    using Cons
    by (auto simp: first_src_def conn_ok_def get_conn_def get_port_def bind_def
        split: option.splits)
qed

lemma first_src_connected:
  assumes "conns p = c # cs" "connections g c = Some k" "src k = Some j" "j < length (ports g)"
  shows "first_src g p = Inr (Some (ports g ! j))"
  using assms by (simp add: first_src_def get_conn_def get_port_def bind_def)

lemma first_src_dangling:
  assumes "conns p = c # cs" "connections g c = Some k" "src k = None"
  shows "first_src g p = Inr None"
  using assms by (simp add: first_src_def get_conn_def bind_def)

lemma index_wf_x: "index_wf n g \<Longrightarrow> port_ok g (ix_x n)"
  by (simp add: index_wf_def)

lemma index_wf_key: "index_wf n g \<Longrightarrow> port_ok g (ix_key n)"
  by (simp add: index_wf_def)

lemma index_wf_inVal:
  "index_wf n g \<Longrightarrow> ix_set n \<Longrightarrow> \<exists>v. ix_inVal n = Some v \<and> port_ok g v"
  by (auto simp: index_wf_def split: option.splits)

lemma derive_types_connected:
  assumes "index_wf n g" "conns (ports g ! ix_x n) = c # cs" "connections g c = Some k"
    "src k = Some j"
  shows "derive_types n g = Inr (container_types (ix_set n) (ports g ! j))"
proof -
  have x: "port_ok g (ix_x n)"
    using assms(1) by (rule index_wf_x)
  then have "conn_ok g c"
    using assms(2) by (simp add: port_ok_def)
  then have "j < length (ports g)"
    using assms(3,4) by (simp add: conn_ok_def)
  then have "first_src g (ports g ! ix_x n) = Inr (Some (ports g ! j))"
    using assms(2,3,4) by (rule first_src_connected [rotated 3])
  then show ?thesis
    using assms(2) by (simp add: derive_types_def port_ok_get [OF x] bind_Inr)
qed

lemma derive_types_dangling:
  assumes "index_wf n g" "conns (ports g ! ix_x n) = c # cs" "connections g c = Some k"
    "src k = None"
  shows "derive_types n g = Inr (None, None, None, False)"
proof -
  have x: "port_ok g (ix_x n)"
    using assms(1) by (rule index_wf_x)
  have "first_src g (ports g ! ix_x n) = Inr None"
    using assms(2,3,4) by (rule first_src_dangling)
  then show ?thesis
    using assms(2) by (simp add: derive_types_def port_ok_get [OF x] bind_Inr)
qed

lemma derive_types_unconnected:
  assumes "index_wf n g" "conns (ports g ! ix_x n) = []"
  shows "\<exists>ko vo. derive_types n g = Inr (None, ko, vo, False) \<and>
     (conns (ports g ! ix_key n) = [] \<longrightarrow> ko = None) \<and>
     (\<not> ix_set n \<longrightarrow> vo = None) \<and>
     (\<forall>v. ix_inVal n = Some v \<longrightarrow> conns (ports g ! v) = [] \<longrightarrow> vo = None)"
proof -
  have x: "port_ok g (ix_x n)" and k: "port_ok g (ix_key n)"
    using assms(1) by (simp_all add: index_wf_def)
  from k obtain kr where kr: "first_src g (ports g ! ix_key n) = Inr kr"
    using first_src_ok [of g "ports g ! ix_key n"] by (auto simp: port_ok_def)
  have kr_none: "conns (ports g ! ix_key n) = [] \<Longrightarrow> kr = None"
    using kr first_src_empty [of "ports g ! ix_key n" g] by simp
  show ?thesis
  proof (cases "ix_set n")
    case False
    then have "derive_types n g = Inr (None, src_Type kr, None, False)"
      using assms(2) kr
      by (simp add: derive_types_def port_ok_get [OF x] port_ok_get [OF k] bind_Inr src_Type_def)
    then show ?thesis
      using kr_none False by (auto simp: src_Type_def)
  next
    case True
    then obtain v where v: "ix_inVal n = Some v" "port_ok g v"
      using index_wf_inVal [OF assms(1)] by blast
    then obtain vr where vr: "first_src g (ports g ! v) = Inr vr"
      using first_src_ok [of g "ports g ! v"] by (auto simp: port_ok_def)
    have vr_none: "conns (ports g ! v) = [] \<Longrightarrow> vr = None"
      using vr first_src_empty [of "ports g ! v" g] by simp
    have "derive_types n g = Inr (None, src_Type kr, src_Type vr, False)"
      using assms(2) kr vr v True
      by (simp add: derive_types_def port_ok_get [OF x] port_ok_get [OF k]
          port_ok_get [OF v(2)] get_port_opt_def bind_Inr)
    then show ?thesis
      using kr_none vr_none v True by (auto simp: src_Type_def)
  qed
qed

lemma derive_types_ok:
  assumes "index_wf n g"
  shows "\<exists>t k e a. derive_types n g = Inr (t, k, e, a)"
proof (cases "conns (ports g ! ix_x n)")
  case Nil
  then show ?thesis
    using derive_types_unconnected [OF assms] by blast
next
  case (Cons c cs)
  have "port_ok g (ix_x n)"
    using assms by (rule index_wf_x)
  then have "conn_ok g c"
    using Cons by (simp add: port_ok_def)
  then obtain k where k: "connections g c = Some k"
    by (auto simp: conn_ok_def split: option.splits)
  show ?thesis
  proof (cases "src k")
    case None
    then show ?thesis
      using derive_types_dangling [OF assms Cons k] by blast
  next
    case (Some j)
    then show ?thesis
      using derive_types_connected [OF assms Cons k]
      by (metis prod_cases4)
  qed
qed

subsection \<open>The store operations keep the ports of a node in order\<close>

lemma removeConn_ports:
  "ports (removeConn c g) = map (\<lambda>p. p\<lparr>conns := removeAll c (conns p)\<rparr>) (ports g)"
  by (simp add: removeConn_def)

lemma removeConn_connections: "connections (removeConn c g) = (connections g)(c := None)"
  by (simp add: removeConn_def)

lemma conn_ok_removeConn: "conn_ok g c' \<Longrightarrow> c' \<noteq> c \<Longrightarrow> conn_ok (removeConn c g) c'"
  by (auto simp: conn_ok_def removeConn_def split: option.splits)

lemma port_ok_removeConn:
  assumes "port_ok g i"
  shows "port_ok (removeConn c g) i"
proof -
  have i: "i < length (ports g)" and all: "list_all (conn_ok g) (conns (ports g ! i))"
    using assms by (simp_all add: port_ok_def)
  have "list_all (conn_ok (removeConn c g)) (removeAll c (conns (ports g ! i)))"
    using all conn_ok_removeConn [of g _ c] by (auto simp: list_all_iff)
  then show ?thesis
    using i by (simp add: port_ok_def removeConn_ports)
qed

lemma fold_removeConn_length: "length (ports (fold removeConn cs g)) = length (ports g)"
  by (induction cs arbitrary: g) (simp_all add: removeConn_ports)

lemma fold_removeConn_Type:
  "i < length (ports g) \<Longrightarrow> port_Type (ports (fold removeConn cs g) ! i) = port_Type (ports g ! i)"
  by (induction cs arbitrary: g) (simp_all add: removeConn_ports)

lemma fold_removeConn_conns:
  "i < length (ports g) \<Longrightarrow>
   set (conns (ports (fold removeConn cs g) ! i)) = set (conns (ports g ! i)) - set cs"
  by (induction cs arbitrary: g) (auto simp: removeConn_ports)

lemma fold_removeConn_connections:
  "connections (fold removeConn cs g) c = (if c \<in> set cs then None else connections g c)"
  by (induction cs arbitrary: g) (auto simp: removeConn_connections)

lemma port_ok_fold_removeConn: "port_ok g i \<Longrightarrow> port_ok (fold removeConn cs g) i"
  by (induction cs arbitrary: g) (simp_all add: port_ok_removeConn)

lemma newPort_fst: "fst (newPort nm t g) = length (ports g)"
  by (simp add: newPort_def)

lemma newPort_ports:
  "ports (snd (newPort nm t g)) = ports g @ [\<lparr>port_Name = nm, port_Type = t, conns = []\<rparr>]"
  by (simp add: newPort_def)

lemma newPort_connections: "connections (snd (newPort nm t g)) = connections g"
  by (simp add: newPort_def)

lemma conn_ok_newPort: "conn_ok g c \<Longrightarrow> conn_ok (snd (newPort nm t g)) c"
  by (auto simp: conn_ok_def newPort_def split: option.splits)

lemma port_ok_newPort:
  assumes "port_ok g i"
  shows "port_ok (snd (newPort nm t g)) i"
proof -
  have i: "i < length (ports g)" and all: "list_all (conn_ok g) (conns (ports g ! i))"
    using assms by (simp_all add: port_ok_def)
  have "list_all (conn_ok (snd (newPort nm t g))) (conns (ports g ! i))"
    using all conn_ok_newPort [of g _ nm t] by (auto simp: list_all_iff)
  then show ?thesis
    using i by (simp add: port_ok_def newPort_ports nth_append)
qed

lemma setType_ok:
  "i < length (ports g) \<Longrightarrow>
   setType i t g = Inr (g\<lparr>ports := (ports g)[i := (ports g ! i)\<lparr>port_Type := t\<rparr>]\<rparr>)"
  by (simp add: setType_def)

lemma setType_facts:
  assumes "setType i t g = Inr g'"
  shows "length (ports g') = length (ports g)" "connections g' = connections g"
    "port_Type (ports g' ! i) = t"
    "j < length (ports g) \<Longrightarrow> j \<noteq> i \<Longrightarrow> ports g' ! j = ports g ! j"
    "j < length (ports g) \<Longrightarrow> conns (ports g' ! j) = conns (ports g ! j)"
  using assms by (auto simp: setType_def nth_list_update split: if_splits)

lemma conn_ok_setType: "setType i t g = Inr g' \<Longrightarrow> conn_ok g' c = conn_ok g c"
  using setType_facts(1,2) [of i t g g'] by (auto simp: conn_ok_def split: option.splits)

lemma port_ok_setType:
  assumes "setType i t g = Inr g'"
  shows "port_ok g' j = port_ok g j"
proof -
  have "conn_ok g' = conn_ok g"
    using conn_ok_setType [OF assms] by auto
  then show ?thesis
    using setType_facts(1,5) [OF assms] by (auto simp: port_ok_def)
qed

subsection \<open>The steps of the recomputation\<close>

lemma index_wf_addressable: "index_wf (n\<lparr>ix_addressable := a\<rparr>) g = index_wf n g"
  by (simp add: index_wf_def node_ports_def)

lemma index_wf_cong:
  assumes "length (ports g') = length (ports g)" "\<And>j. port_ok g' j = port_ok g j"
  shows "index_wf n g' = index_wf n g"
  using assms by (auto simp: index_wf_def split: option.splits)

lemma index_wf_read:
  assumes "index_wf n g" "\<not> ix_set n"
  shows "\<exists>v. ix_outVal n = Some v \<and> v < length (ports g) \<and> ix_inVal n = None \<and>
     ix_x n < length (ports g) \<and> ix_key n < length (ports g) \<and>
     v \<noteq> ix_x n \<and> v \<noteq> ix_key n \<and> ix_x n \<noteq> ix_key n \<and>
     (case ix_ok n of
        None \<Rightarrow> ix_outs n = [v]
      | Some k \<Rightarrow> ix_outs n = [v, k] \<and> k < length (ports g) \<and> k \<noteq> v \<and>
          k \<noteq> ix_x n \<and> k \<noteq> ix_key n)"
  using assms
  by (cases "ix_outVal n"; cases "ix_ok n")
    (auto simp: index_wf_def node_ports_def opt_list_def)

lemma index_wf_write:
  assumes "index_wf n g" "ix_set n"
  shows "\<exists>v. ix_inVal n = Some v \<and> v < length (ports g) \<and> ix_outVal n = None \<and>
     ix_ok n = None \<and> ix_outs n = [] \<and>
     ix_x n < length (ports g) \<and> ix_key n < length (ports g) \<and>
     v \<noteq> ix_x n \<and> v \<noteq> ix_key n \<and> ix_x n \<noteq> ix_key n"
  using assms
  by (cases "ix_inVal n") (auto simp: index_wf_def node_ports_def opt_list_def)

lemma add_ok_result:
  assumes "index_wf n g" "\<not> ix_set n"
  shows "\<exists>n' g'. add_ok n g = Inr (n', g') \<and> index_wf n' g' \<and> ix_ok n' \<noteq> None \<and>
     ix_set n' = ix_set n \<and> ix_x n' = ix_x n \<and> ix_key n' = ix_key n \<and>
     ix_inVal n' = ix_inVal n \<and> ix_outVal n' = ix_outVal n \<and>
     ix_addressable n' = ix_addressable n \<and> length (ix_outs n') = 2 \<and>
     (\<forall>k. ix_ok n' = Some k \<longrightarrow> k < length (ports g') \<and> ix_outs n' ! 1 = k \<and>
        (ix_ok n = None \<longrightarrow> port_Type (ports g' ! k) = Some Typ_Bool))"
proof -
  from index_wf_read [OF assms] obtain v where
    v: "ix_outVal n = Some v" "v < length (ports g)" "ix_inVal n = None"
       "ix_x n < length (ports g)" "ix_key n < length (ports g)"
       "v \<noteq> ix_x n" "v \<noteq> ix_key n" "ix_x n \<noteq> ix_key n"
    and ok: "case ix_ok n of
        None \<Rightarrow> ix_outs n = [v]
      | Some k \<Rightarrow> ix_outs n = [v, k] \<and> k < length (ports g) \<and> k \<noteq> v \<and>
          k \<noteq> ix_x n \<and> k \<noteq> ix_key n"
    by (elim exE conjE)
  show ?thesis
  proof (cases "ix_ok n")
    case (Some k)
    then have "add_ok n g = Inr (n, g)" "length (ix_outs n) = 2" "ix_outs n ! 1 = k"
        "k < length (ports g)"
      using ok by (simp_all add: add_ok_def)
    then show ?thesis
      using assms(1) Some by auto
  next
    case None
    let ?i = "length (ports g)"
    let ?g = "snd (newPort ''ok'' (Some Typ_Bool) g)"
    let ?n = "n\<lparr>ix_ok := Some ?i, ix_outs := ix_outs n @ [?i]\<rparr>"
    have run: "add_ok n g = Inr (?n, ?g)"
      using None by (simp add: add_ok_def newPort_def)
    have len: "length (ports ?g) = Suc ?i"
      by (simp add: newPort_ports)
    have px: "port_ok ?g (ix_x n)" and pk: "port_ok ?g (ix_key n)"
      using assms(1) by (simp_all add: index_wf_def port_ok_newPort)
    have outs: "ix_outs n = [v]"
      using ok None by simp
    have "index_wf ?n ?g"
      using px pk v outs assms(2) len
      by (simp add: index_wf_def node_ports_def opt_list_def)
    moreover have "port_Type (ports ?g ! ?i) = Some Typ_Bool"
      by (simp add: newPort_ports)
    ultimately show ?thesis
      using run outs len by auto
  qed
qed

lemma remove_ok_result:
  assumes "index_wf n g" "\<not> ix_set n"
  shows "\<exists>n' g'. remove_ok n g = Inr (n', g') \<and> index_wf n' g' \<and> ix_ok n' = None \<and>
     ix_set n' = ix_set n \<and> ix_x n' = ix_x n \<and> ix_key n' = ix_key n \<and>
     ix_inVal n' = ix_inVal n \<and> ix_outVal n' = ix_outVal n \<and>
     ix_addressable n' = ix_addressable n \<and> length (ix_outs n') = 1 \<and>
     length (ports g') = length (ports g) \<and>
     (\<forall>k. ix_ok n = Some k \<longrightarrow> k \<notin> set (ix_outs n') \<and>
        (\<forall>c \<in> set (conns (ports g ! k)). connections g' c = None \<and>
           (\<forall>i < length (ports g'). c \<notin> set (conns (ports g' ! i)))))"
proof -
  from index_wf_read [OF assms] obtain v where
    v: "ix_outVal n = Some v" "v < length (ports g)" "ix_inVal n = None"
       "ix_x n < length (ports g)" "ix_key n < length (ports g)"
       "v \<noteq> ix_x n" "v \<noteq> ix_key n" "ix_x n \<noteq> ix_key n"
    and ok: "case ix_ok n of
        None \<Rightarrow> ix_outs n = [v]
      | Some k \<Rightarrow> ix_outs n = [v, k] \<and> k < length (ports g) \<and> k \<noteq> v \<and>
          k \<noteq> ix_x n \<and> k \<noteq> ix_key n"
    by (elim exE conjE)
  show ?thesis
  proof (cases "ix_ok n")
    case None
    then have "remove_ok n g = Inr (n, g)" "length (ix_outs n) = 1"
      using ok by (simp_all add: remove_ok_def Remove_def)
    then show ?thesis
      using assms(1) None by auto
  next
    case (Some k)
    let ?cs = "conns (ports g ! k)"
    let ?g = "fold removeConn ?cs g"
    let ?n = "n\<lparr>ix_outs := take 1 (ix_outs n), ix_ok := None\<rparr>"
    have k: "ix_outs n = [v, k]" "k < length (ports g)" "k \<noteq> v"
      using ok Some by simp_all
    have run: "remove_ok n g = Inr (?n, ?g)"
      using Some k by (simp add: remove_ok_def Remove_def get_port_def bind_def Let_def)
    have len: "length (ports ?g) = length (ports g)"
      by (rule fold_removeConn_length)
    have px: "port_ok ?g (ix_x n)" and pk: "port_ok ?g (ix_key n)"
      using assms(1) by (simp_all add: index_wf_def port_ok_fold_removeConn)
    have wf: "index_wf ?n ?g"
      using px pk v k assms(2) len
      by (simp add: index_wf_def node_ports_def opt_list_def)
    have gone: "connections ?g c = None \<and> (\<forall>i < length (ports ?g). c \<notin> set (conns (ports ?g ! i)))"
      if "c \<in> set ?cs" for c
      using that len by (simp add: fold_removeConn_connections fold_removeConn_conns)
    have "k \<notin> set (ix_outs ?n)"
      using k by simp
    then show ?thesis
      using run wf len gone Some k(1) by auto
  qed
qed

lemma update_ok_result:
  assumes "index_wf n g" "\<not> ix_set n"
  shows "\<exists>n' g'. update_ok n g t = Inr (n', g') \<and> index_wf n' g' \<and>
     (ix_ok n' \<noteq> None) = is_Map t \<and>
     ix_set n' = ix_set n \<and> ix_x n' = ix_x n \<and> ix_key n' = ix_key n \<and>
     ix_inVal n' = ix_inVal n \<and> ix_outVal n' = ix_outVal n \<and>
     ix_addressable n' = ix_addressable n \<and>
     length (ix_outs n') = (if is_Map t then 2 else 1) \<and>
     (\<forall>k. ix_ok n' = Some k \<longrightarrow> k < length (ports g') \<and> ix_outs n' ! 1 = k \<and>
        (ix_ok n = None \<longrightarrow> port_Type (ports g' ! k) = Some Typ_Bool)) \<and>
     (\<not> is_Map t \<longrightarrow> length (ports g') = length (ports g) \<and>
        (\<forall>k. ix_ok n = Some k \<longrightarrow> k \<notin> set (ix_outs n') \<and>
          (\<forall>c \<in> set (conns (ports g ! k)). connections g' c = None \<and>
             (\<forall>i < length (ports g'). c \<notin> set (conns (ports g' ! i))))))"
proof (cases "is_Map t")
  case True
  then have "update_ok n g t = add_ok n g"
    by (auto simp: update_ok_def is_Map_def split: option.splits Type.splits)
  then show ?thesis
    using add_ok_result [OF assms] True by auto
next
  case False
  then have "update_ok n g t = remove_ok n g"
    by (auto simp: update_ok_def is_Map_def split: option.splits Type.splits)
  then show ?thesis
    using remove_ok_result [OF assms] False by auto
qed

lemma assign_types_result:
  assumes "index_wf n g"
  shows "\<exists>g'. assign_types n t k e g = Inr g' \<and> index_wf n g' \<and>
     port_Type (ports g' ! ix_x n) = t \<and> port_Type (ports g' ! ix_key n) = k \<and>
     (\<forall>v. (if ix_set n then ix_inVal n else ix_outVal n) = Some v \<longrightarrow>
        port_Type (ports g' ! v) = e) \<and>
     connections g' = connections g \<and> length (ports g') = length (ports g) \<and>
     (\<forall>j < length (ports g). conns (ports g' ! j) = conns (ports g ! j)) \<and>
     (\<forall>j < length (ports g). j \<noteq> ix_x n \<longrightarrow> j \<noteq> ix_key n \<longrightarrow>
        (if ix_set n then ix_inVal n else ix_outVal n) \<noteq> Some j \<longrightarrow> ports g' ! j = ports g ! j)"
proof -
  obtain v where
    v: "(if ix_set n then ix_inVal n else ix_outVal n) = Some v" "v < length (ports g)"
       "ix_x n < length (ports g)" "ix_key n < length (ports g)"
       "v \<noteq> ix_x n" "v \<noteq> ix_key n" "ix_x n \<noteq> ix_key n"
    using index_wf_read [OF assms] index_wf_write [OF assms] by (cases "ix_set n") auto
  obtain g1 where g1: "setType (ix_x n) t g = Inr g1"
    using v(3) by (simp add: setType_def)
  note f1 = setType_facts [OF g1]
  obtain g2 where g2: "setType (ix_key n) k g1 = Inr g2"
    using v(4) f1(1) by (simp add: setType_def)
  note f2 = setType_facts [OF g2]
  obtain g3 where g3: "setType v e g2 = Inr g3"
    using v(2) f1(1) f2(1) by (simp add: setType_def)
  note f3 = setType_facts [OF g3]
  have run: "assign_types n t k e g = Inr g3"
    using g1 g2 g3 v(1) by (simp add: assign_types_def bind_def setType_opt_def)
  have len: "length (ports g3) = length (ports g)"
    using f1(1) f2(1) f3(1) by simp
  have ok: "port_ok g3 j = port_ok g j" for j
    using port_ok_setType [OF g1] port_ok_setType [OF g2] port_ok_setType [OF g3] by simp
  have wf: "index_wf n g3"
    using index_wf_cong [OF len ok] assms by simp
  have tx: "port_Type (ports g3 ! ix_x n) = t"
    using f1(3) f2(4) [of "ix_x n"] f3(4) [of "ix_x n"] f1(1) f2(1) v by simp
  have tk: "port_Type (ports g3 ! ix_key n) = k"
    using f2(3) f3(4) [of "ix_key n"] f1(1) f2(1) v by simp
  have tv: "port_Type (ports g3 ! v) = e"
    using f3(3) by simp
  have cs: "conns (ports g3 ! j) = conns (ports g ! j)" if "j < length (ports g)" for j
    using that f1(5) [of j] f2(5) [of j] f3(5) [of j] f1(1) f2(1) by simp
  have con: "connections g3 = connections g"
    using f1(2) f2(2) f3(2) by simp
  have other: "ports g3 ! j = ports g ! j"
    if "j < length (ports g)" "j \<noteq> ix_x n" "j \<noteq> ix_key n" "j \<noteq> v" for j
    using that f1(4) [of j] f2(4) [of j] f3(4) [of j] f1(1) f2(1) by simp
  show ?thesis
    using run wf tx tk tv cs con len v(1) other by auto
qed

lemma index_update_write:
  assumes wf: "index_wf n g" and w: "ix_set n"
    and d: "derive_types n g = Inr (t0, k0, e0, a)"
  shows "\<exists>n' g'. indexNode_updateInputType n g = Inr (n', g') \<and> index_wf n' g' \<and>
     n' = n\<lparr>ix_addressable := a\<rparr> \<and>
     port_Type (ports g' ! ix_x n) = or_generic t0 \<and>
     port_Type (ports g' ! ix_key n) = or_generic k0 \<and>
     (\<forall>v. ix_inVal n = Some v \<longrightarrow> port_Type (ports g' ! v) = or_generic e0)"
proof -
  let ?n = "n\<lparr>ix_addressable := a\<rparr>"
  have wf1: "index_wf ?n g"
    using wf by (simp add: index_wf_addressable)
  from assign_types_result [OF wf1, of "or_generic t0" "or_generic k0" "or_generic e0"]
  obtain g' where
    g': "assign_types ?n (or_generic t0) (or_generic k0) (or_generic e0) g = Inr g'"
      "index_wf ?n g'" "port_Type (ports g' ! ix_x ?n) = or_generic t0"
      "port_Type (ports g' ! ix_key ?n) = or_generic k0"
      "\<forall>v. (if ix_set ?n then ix_inVal ?n else ix_outVal ?n) = Some v \<longrightarrow>
        port_Type (ports g' ! v) = or_generic e0"
    by (elim exE conjE)
  have "indexNode_updateInputType n g = Inr (?n, g')"
    using d w g'(1) by (simp add: indexNode_updateInputType_def reform_def bind_def Let_def)
  then show ?thesis
    using g'(2-5) w by auto
qed

lemma index_update_read:
  assumes wf: "index_wf n g" and r: "\<not> ix_set n"
    and d: "derive_types n g = Inr (t0, k0, e0, a)"
  shows "\<exists>n' g'. indexNode_updateInputType n g = Inr (n', g') \<and> index_wf n' g' \<and>
     ix_set n' = ix_set n \<and> ix_x n' = ix_x n \<and> ix_key n' = ix_key n \<and>
     ix_inVal n' = ix_inVal n \<and> ix_outVal n' = ix_outVal n \<and> ix_addressable n' = a \<and>
     port_Type (ports g' ! ix_x n) = or_generic t0 \<and>
     port_Type (ports g' ! ix_key n) = or_generic k0 \<and>
     (\<forall>v. ix_outVal n = Some v \<longrightarrow> port_Type (ports g' ! v) = or_generic e0) \<and>
     (ix_ok n' \<noteq> None) = is_Map (or_generic t0) \<and>
     length (ix_outs n') = (if is_Map (or_generic t0) then 2 else 1) \<and>
     (\<forall>k. ix_ok n' = Some k \<longrightarrow> ix_outs n' ! 1 = k \<and>
        (ix_ok n = None \<longrightarrow> port_Type (ports g' ! k) = Some Typ_Bool)) \<and>
     (\<not> is_Map (or_generic t0) \<longrightarrow>
        (\<forall>k. ix_ok n = Some k \<longrightarrow> k \<notin> set (ix_outs n') \<and>
          (\<forall>c \<in> set (conns (ports g ! k)). connections g' c = None \<and>
             (\<forall>i < length (ports g'). c \<notin> set (conns (ports g' ! i))))))"
proof -
  let ?n = "n\<lparr>ix_addressable := a\<rparr>"
  let ?t = "or_generic t0"
  have wf1: "index_wf ?n g" and r1: "\<not> ix_set ?n"
    using wf r by (simp_all add: index_wf_addressable)
  from update_ok_result [OF wf1 r1, of ?t] obtain n2 g2 where
    u: "update_ok ?n g ?t = Inr (n2, g2)" and wf2: "index_wf n2 g2"
    and okmap: "(ix_ok n2 \<noteq> None) = is_Map ?t"
    and same: "ix_set n2 = ix_set ?n" "ix_x n2 = ix_x ?n" "ix_key n2 = ix_key ?n"
      "ix_inVal n2 = ix_inVal ?n" "ix_outVal n2 = ix_outVal ?n"
      "ix_addressable n2 = ix_addressable ?n"
    and outs: "length (ix_outs n2) = (if is_Map ?t then 2 else 1)"
    and okp: "\<forall>k. ix_ok n2 = Some k \<longrightarrow> k < length (ports g2) \<and> ix_outs n2 ! 1 = k \<and>
        (ix_ok ?n = None \<longrightarrow> port_Type (ports g2 ! k) = Some Typ_Bool)"
    and gone: "\<not> is_Map ?t \<longrightarrow> length (ports g2) = length (ports g) \<and>
        (\<forall>k. ix_ok ?n = Some k \<longrightarrow> k \<notin> set (ix_outs n2) \<and>
          (\<forall>c \<in> set (conns (ports g ! k)). connections g2 c = None \<and>
             (\<forall>i < length (ports g2). c \<notin> set (conns (ports g2 ! i)))))"
    by (elim exE conjE)
  from assign_types_result [OF wf2, of ?t "or_generic k0" "or_generic e0"]
  obtain g' where
    g': "assign_types n2 ?t (or_generic k0) (or_generic e0) g2 = Inr g'"
    and wf3: "index_wf n2 g'"
    and tx: "port_Type (ports g' ! ix_x n2) = ?t"
    and tk: "port_Type (ports g' ! ix_key n2) = or_generic k0"
    and tv: "\<forall>v. (if ix_set n2 then ix_inVal n2 else ix_outVal n2) = Some v \<longrightarrow>
        port_Type (ports g' ! v) = or_generic e0"
    and con: "connections g' = connections g2"
    and len: "length (ports g') = length (ports g2)"
    and cs: "\<forall>j < length (ports g2). conns (ports g' ! j) = conns (ports g2 ! j)"
    and other: "\<forall>j < length (ports g2). j \<noteq> ix_x n2 \<longrightarrow> j \<noteq> ix_key n2 \<longrightarrow>
        (if ix_set n2 then ix_inVal n2 else ix_outVal n2) \<noteq> Some j \<longrightarrow> ports g' ! j = ports g2 ! j"
    by (elim exE conjE)
  have run: "indexNode_updateInputType n g = Inr (n2, g')"
    using d r u g' by (simp add: indexNode_updateInputType_def reform_def bind_def Let_def)
  have gone': "\<forall>k. ix_ok n = Some k \<longrightarrow> k \<notin> set (ix_outs n2) \<and>
          (\<forall>c \<in> set (conns (ports g ! k)). connections g' c = None \<and>
             (\<forall>i < length (ports g'). c \<notin> set (conns (ports g' ! i))))"
    if "\<not> is_Map ?t"
    using gone that con len cs by simp
  have r2: "\<not> ix_set n2"
    using same r by simp
  have okp': "ix_outs n2 ! 1 = k \<and> (ix_ok n = None \<longrightarrow> port_Type (ports g' ! k) = Some Typ_Bool)"
    if k: "ix_ok n2 = Some k" for k
  proof -
    from index_wf_read [OF wf2 r2] obtain v where
      "ix_outVal n2 = Some v" "k < length (ports g2)" "k \<noteq> v" "k \<noteq> ix_x n2" "k \<noteq> ix_key n2"
      using k by auto
    then have "ports g' ! k = ports g2 ! k"
      using other r2 by simp
    then show ?thesis
      using okp k by simp
  qed
  show ?thesis
    using run wf3 same tx tk tv okmap outs gone' okp' r by auto
qed

lemma or_generic_not_None: "or_generic t \<noteq> None"
  by (simp add: or_generic_def split: option.splits)

lemma or_generic_Some: "\<exists>u. or_generic t = Some u"
  by (simp add: or_generic_def split: option.splits)

lemma or_generic_None: "or_generic None = Some generic"
  by (simp add: or_generic_def)

lemma Pointer_neq: "Pointer e \<noteq> e"
proof
  assume "Pointer e = e"
  then have "size (Pointer e) = size e"
    by simp
  then show False
    by simp
qed

lemma newIndexNode_result:
  "\<exists>n g'. newIndexNode b g = Inr (n, g') \<and> index_wf n g' \<and> ix_set n = b \<and>
     (b \<longrightarrow> ix_outVal n = None \<and> ix_ok n = None \<and> ix_outs n = [])"
proof -
  let ?p = "\<lparr>port_Name = [], port_Type = None, conns = []\<rparr>"
  let ?x = "length (ports g)"
  let ?g = "g\<lparr>ports := ports g @ [?p, ?p, ?p]\<rparr>"
  let ?n = "\<lparr>ix_set = b, ix_x = ?x, ix_key = Suc ?x,
               ix_inVal = (if b then Some (Suc (Suc ?x)) else None),
               ix_outVal = (if b then None else Some (Suc (Suc ?x))),
               ix_ok = None, ix_addressable = False,
               ix_ins = (if b then [?x, Suc ?x, Suc (Suc ?x)] else [?x, Suc ?x]),
               ix_outs = (if b then [] else [Suc (Suc ?x)])\<rparr>"
  have new: "newIndexNode b g = indexNode_updateInputType ?n ?g"
    by (simp add: newIndexNode_def newPort_def Let_def)
  have wf: "index_wf ?n ?g"
    by (simp add: index_wf_def port_ok_def node_ports_def opt_list_def nth_append)
  obtain t0 k0 e0 a where d: "derive_types ?n ?g = Inr (t0, k0, e0, a)"
    using derive_types_ok [OF wf] by blast
  show ?thesis
  proof (cases b)
    case True
    then have "ix_set ?n"
      by simp
    from index_update_write [OF wf this d] show ?thesis
      using new True by auto
  next
    case False
    then have "\<not> ix_set ?n"
      by simp
    from index_update_read [OF wf this d] show ?thesis
      using new False by auto
  qed
qed


section \<open>The claims about the index node\<close>

lemma container_types_not_indexable:
  assumes "\<not> indexable (fst (indirect (port_Type q)))"
  shows "container_types s q = (fst (indirect (port_Type q)), Some Typ_Int, None, False)"
proof -
  obtain t ptr where i: "indirect (port_Type q) = (t, ptr)"
    by (cases "indirect (port_Type q)")
  show ?thesis
  proof (cases t)
    case None
    then show ?thesis
      using i by (simp add: container_types_def)
  next
    case (Some u)
    show ?thesis
    proof (cases u)
      case (Named obj und)
      then show ?thesis
        using assms i Some by (cases und) (simp_all add: container_types_def indexable_def)
    qed (use assms i Some in \<open>simp_all add: container_types_def indexable_def\<close>)
  qed
qed

text \<open>
  Claim C7. The recomputation of an index node returns (no nil dereference, no index
  out of range) on every node of the structure that index nodes have, and leaves such a
  node; \<open>newIndexNode\<close> makes such a node. Afterwards the container port, the key port
  and the value port have each the type that the first half of the recomputation has
  derived for it, and the placeholder \<open>generic\<close> if it has derived none. None is
  derived: for the container, the key and the value, when the container is connected to
  a connection without a source; for the container when it is not connected, and then
  also for the key when it is not connected, for the value read, and for the value
  written when it is not connected; for the value when the container is connected to a
  port whose type cannot be indexed, and for the container as well when that port has
  no type (the key is then \<open>int\<close>).
\<close>

theorem index_update_total:
  assumes "index_wf n g"
  shows "\<exists>n' g' t0 k0 e0 a.
     derive_types n g = Inr (t0, k0, e0, a) \<and>
     indexNode_updateInputType n g = Inr (n', g') \<and> index_wf n' g' \<and>
     port_Type (ports g' ! ix_x n') = Some (case t0 of None \<Rightarrow> generic | Some u \<Rightarrow> u) \<and>
     port_Type (ports g' ! ix_key n') = Some (case k0 of None \<Rightarrow> generic | Some u \<Rightarrow> u) \<and>
     (\<forall>v. ix_inVal n' = Some v \<or> ix_outVal n' = Some v \<longrightarrow>
        port_Type (ports g' ! v) = Some (case e0 of None \<Rightarrow> generic | Some u \<Rightarrow> u)) \<and>
     (conns (ports g ! ix_x n) = [] \<longrightarrow>
        t0 = None \<and> (conns (ports g ! ix_key n) = [] \<longrightarrow> k0 = None) \<and>
        (\<not> ix_set n \<longrightarrow> e0 = None) \<and>
        (\<forall>v. ix_inVal n = Some v \<longrightarrow> conns (ports g ! v) = [] \<longrightarrow> e0 = None)) \<and>
     (\<forall>c cs k. conns (ports g ! ix_x n) = c # cs \<and> connections g c = Some k \<longrightarrow>
        (src k = None \<longrightarrow> t0 = None \<and> k0 = None \<and> e0 = None) \<and>
        (\<forall>j. src k = Some j \<longrightarrow>
           (t0, k0, e0, a) = container_types (ix_set n) (ports g ! j) \<and>
           (\<not> indexable (fst (indirect (port_Type (ports g ! j)))) \<longrightarrow>
              t0 = fst (indirect (port_Type (ports g ! j))) \<and> k0 = Some Typ_Int \<and>
              e0 = None)))"
proof -
  obtain t0 k0 e0 a where d: "derive_types n g = Inr (t0, k0, e0, a)"
    using derive_types_ok [OF assms] by blast
  have un: "t0 = None \<and> (conns (ports g ! ix_key n) = [] \<longrightarrow> k0 = None) \<and>
      (\<not> ix_set n \<longrightarrow> e0 = None) \<and>
      (\<forall>v. ix_inVal n = Some v \<longrightarrow> conns (ports g ! v) = [] \<longrightarrow> e0 = None)"
    if "conns (ports g ! ix_x n) = []"
    using derive_types_unconnected [OF assms that] d by auto
  have co: "(src k = None \<longrightarrow> t0 = None \<and> k0 = None \<and> e0 = None) \<and>
        (\<forall>j. src k = Some j \<longrightarrow>
           (t0, k0, e0, a) = container_types (ix_set n) (ports g ! j) \<and>
           (\<not> indexable (fst (indirect (port_Type (ports g ! j)))) \<longrightarrow>
              t0 = fst (indirect (port_Type (ports g ! j))) \<and> k0 = Some Typ_Int \<and>
              e0 = None))"
    if c: "conns (ports g ! ix_x n) = c # cs" "connections g c = Some k" for c cs k
  proof (cases "src k")
    case None
    from derive_types_dangling [OF assms c None] d show ?thesis
      using None by simp
  next
    case (Some j)
    from derive_types_connected [OF assms c Some] d
    have e: "(t0, k0, e0, a) = container_types (ix_set n) (ports g ! j)"
      by simp
    show ?thesis
      using Some e container_types_not_indexable [of "ports g ! j" "ix_set n"] by auto
  qed
  have og: "or_generic t = Some (case t of None \<Rightarrow> generic | Some u \<Rightarrow> u)" for t
    by (simp add: or_generic_def split: option.splits)
  have "\<exists>n' g'. indexNode_updateInputType n g = Inr (n', g') \<and> index_wf n' g' \<and>
     port_Type (ports g' ! ix_x n') = or_generic t0 \<and>
     port_Type (ports g' ! ix_key n') = or_generic k0 \<and>
     (\<forall>v. ix_inVal n' = Some v \<or> ix_outVal n' = Some v \<longrightarrow>
        port_Type (ports g' ! v) = or_generic e0)"
  proof (cases "ix_set n")
    case True
    from index_wf_write [OF assms True] obtain v where
      v: "ix_inVal n = Some v" "ix_outVal n = None"
      by (elim exE conjE)
    from index_update_write [OF assms True d] obtain n' g' where
      r: "indexNode_updateInputType n g = Inr (n', g')" "index_wf n' g'"
         "n' = n\<lparr>ix_addressable := a\<rparr>"
         "port_Type (ports g' ! ix_x n) = or_generic t0"
         "port_Type (ports g' ! ix_key n) = or_generic k0"
         "\<forall>v. ix_inVal n = Some v \<longrightarrow> port_Type (ports g' ! v) = or_generic e0"
      by (elim exE conjE)
    show ?thesis
      using r v by auto
  next
    case False
    from index_wf_read [OF assms False] obtain v where
      v: "ix_outVal n = Some v" "ix_inVal n = None"
      by (elim exE conjE)
    from index_update_read [OF assms False d] obtain n' g' where
      r: "indexNode_updateInputType n g = Inr (n', g')" "index_wf n' g'"
         "ix_x n' = ix_x n" "ix_key n' = ix_key n"
         "ix_inVal n' = ix_inVal n" "ix_outVal n' = ix_outVal n"
         "port_Type (ports g' ! ix_x n) = or_generic t0"
         "port_Type (ports g' ! ix_key n) = or_generic k0"
         "\<forall>v. ix_outVal n = Some v \<longrightarrow> port_Type (ports g' ! v) = or_generic e0"
      by (elim exE conjE)
    show ?thesis
      using r v by auto
  qed
  then obtain n' g' where
    r: "indexNode_updateInputType n g = Inr (n', g')" "index_wf n' g'"
       "port_Type (ports g' ! ix_x n') = or_generic t0"
       "port_Type (ports g' ! ix_key n') = or_generic k0"
       "\<forall>v. ix_inVal n' = Some v \<or> ix_outVal n' = Some v \<longrightarrow>
          port_Type (ports g' ! v) = or_generic e0"
    by (elim exE conjE)
  have co': "\<forall>c cs k. conns (ports g ! ix_x n) = c # cs \<and> connections g c = Some k \<longrightarrow>
        (src k = None \<longrightarrow> t0 = None \<and> k0 = None \<and> e0 = None) \<and>
        (\<forall>j. src k = Some j \<longrightarrow>
           (t0, k0, e0, a) = container_types (ix_set n) (ports g ! j) \<and>
           (\<not> indexable (fst (indirect (port_Type (ports g ! j)))) \<longrightarrow>
              t0 = fst (indirect (port_Type (ports g ! j))) \<and> k0 = Some Typ_Int \<and>
              e0 = None))"
    using co by blast
  have un': "conns (ports g ! ix_x n) = [] \<longrightarrow>
        t0 = None \<and> (conns (ports g ! ix_key n) = [] \<longrightarrow> k0 = None) \<and>
        (\<not> ix_set n \<longrightarrow> e0 = None) \<and>
        (\<forall>v. ix_inVal n = Some v \<longrightarrow> conns (ports g ! v) = [] \<longrightarrow> e0 = None)"
    using un by blast
  show ?thesis
    by (intro exI [of _ n'] exI [of _ g'] exI [of _ t0] exI [of _ k0] exI [of _ e0] exI [of _ a]
        conjI d r(1,2) r(3) [unfolded og] r(4) [unfolded og] r(5) [unfolded og] un' co')
qed

lemma example_wf: "index_wf example_node example_graph"
  by (simp add: index_wf_def example_node_def example_graph_def port_ok_def conn_ok_def
      node_ports_def opt_list_def)

lemma scalar_wf: "index_wf example_node scalar_graph"
  by (simp add: index_wf_def example_node_def scalar_graph_def port_ok_def conn_ok_def
      node_ports_def opt_list_def)

theorem index_update_total_witness:
  "index_wf example_node scalar_graph \<and>
   conns (ports scalar_graph ! ix_x example_node) = [7] \<and>
   connections scalar_graph 7 = Some \<lparr>src = Some 3, dst = Some 0\<rparr> \<and>
   \<not> indexable (fst (indirect (port_Type (ports scalar_graph ! 3)))) \<and>
   (\<exists>n' g'. indexNode_updateInputType example_node scalar_graph = Inr (n', g') \<and>
      index_wf n' g' \<and>
      port_Type (ports g' ! ix_x n') = Some Typ_Bool \<and>
      port_Type (ports g' ! ix_key n') = Some Typ_Int \<and>
      (\<forall>v. ix_outVal n' = Some v \<longrightarrow> port_Type (ports g' ! v) = Some generic))"
proof -
  have c: "conns (ports scalar_graph ! ix_x example_node) = [7]"
    "connections scalar_graph 7 = Some \<lparr>src = Some 3, dst = Some 0\<rparr>"
    by (simp_all add: scalar_graph_def example_node_def)
  have s: "src \<lparr>src = Some 3, dst = Some 0\<rparr> = Some 3"
    by simp
  have i: "indirect (port_Type (ports scalar_graph ! 3)) = (Some Typ_Bool, False)"
    by (simp add: scalar_graph_def indirect_def Typ_Bool_def)
  have ni: "\<not> indexable (fst (indirect (port_Type (ports scalar_graph ! 3))))"
    by (simp add: i) (simp add: indexable_def Typ_Bool_def)
  from index_update_total [OF scalar_wf] obtain n' g' t0 k0 e0 a where
    r: "indexNode_updateInputType example_node scalar_graph = Inr (n', g')" "index_wf n' g'"
      "port_Type (ports g' ! ix_x n') = Some (case t0 of None \<Rightarrow> generic | Some u \<Rightarrow> u)"
      "port_Type (ports g' ! ix_key n') = Some (case k0 of None \<Rightarrow> generic | Some u \<Rightarrow> u)"
      "\<forall>v. ix_inVal n' = Some v \<or> ix_outVal n' = Some v \<longrightarrow>
        port_Type (ports g' ! v) = Some (case e0 of None \<Rightarrow> generic | Some u \<Rightarrow> u)"
    and co: "\<forall>c cs k. conns (ports scalar_graph ! ix_x example_node) = c # cs \<and>
        connections scalar_graph c = Some k \<longrightarrow>
        (src k = None \<longrightarrow> t0 = None \<and> k0 = None \<and> e0 = None) \<and>
        (\<forall>j. src k = Some j \<longrightarrow>
           (t0, k0, e0, a) = container_types (ix_set example_node) (ports scalar_graph ! j) \<and>
           (\<not> indexable (fst (indirect (port_Type (ports scalar_graph ! j)))) \<longrightarrow>
              t0 = fst (indirect (port_Type (ports scalar_graph ! j))) \<and> k0 = Some Typ_Int \<and>
              e0 = None))"
    by (elim exE conjE)
  from co c s ni have "t0 = fst (indirect (port_Type (ports scalar_graph ! 3))) \<and>
      k0 = Some Typ_Int \<and> e0 = None"
    by blast
  then have t: "t0 = Some Typ_Bool" "k0 = Some Typ_Int" "e0 = None"
    by (simp_all add: i)
  have "\<exists>n' g'. indexNode_updateInputType example_node scalar_graph = Inr (n', g') \<and>
      index_wf n' g' \<and>
      port_Type (ports g' ! ix_x n') = Some Typ_Bool \<and>
      port_Type (ports g' ! ix_key n') = Some Typ_Int \<and>
      (\<forall>v. ix_outVal n' = Some v \<longrightarrow> port_Type (ports g' ! v) = Some generic)"
    using r unfolding t by (intro exI [of _ n'] exI [of _ g']) simp
  then show ?thesis
    using scalar_wf c ni by blast
qed

lemma container_types_sequence:
  assumes "indirect (port_Type p) = (Some t, ptr)"
    and "t = Array l e \<or> t = Named obj (Array l e) \<or> t = Slice e \<or> t = Named obj (Slice e)"
  shows "\<exists>t0 k0. container_types s p =
     (t0, k0,
      Some (if \<not> s \<and> (ptr \<or> t = Slice e \<or> t = Named obj (Slice e)) then Pointer e else e),
      \<not> s \<and> (ptr \<or> t = Slice e \<or> t = Named obj (Slice e)))"
  using assms by (auto simp: container_types_def Let_def)

text \<open>
  Claim C3. Let the container input of an index node be connected to a port whose type,
  with one pointer taken off by \<open>indirect\<close>, is an array or a slice, or a named type
  whose underlying type is one, with element type \<open>e\<close>. The container is addressable
  if it is a slice or is reached through the pointer. After the recomputation the flag
  \<open>addressable\<close> is set exactly if the node reads and the container is addressable; the
  value output of a node that reads has the type pointer to \<open>e\<close> exactly in that case
  and the type \<open>e\<close> otherwise. A node that writes has no output port, neither after
  a recomputation nor when \<open>newIndexNode\<close> has made it.
\<close>

theorem index_addressable:
  assumes "index_wf n g"
    and "conns (ports g ! ix_x n) = c # cs" and "connections g c = Some k" and "src k = Some j"
    and "indirect (port_Type (ports g ! j)) = (Some t, ptr)"
    and "t = Array l e \<or> t = Named obj (Array l e) \<or> t = Slice e \<or> t = Named obj (Slice e)"
  shows "\<exists>n' g'. indexNode_updateInputType n g = Inr (n', g') \<and>
     ix_addressable n' = (\<not> ix_set n \<and> (ptr \<or> t = Slice e \<or> t = Named obj (Slice e))) \<and>
     (\<not> ix_set n \<longrightarrow>
        (\<exists>v. ix_outVal n' = Some v \<and> ix_outs n' ! 0 = v \<and>
           (port_Type (ports g' ! v) = Some (Pointer e)) = ix_addressable n' \<and>
           (\<not> ix_addressable n' \<longrightarrow> port_Type (ports g' ! v) = Some e))) \<and>
     (ix_set n \<longrightarrow> ix_outVal n' = None \<and> ix_ok n' = None \<and> ix_outs n' = [] \<and>
        (\<exists>v. ix_inVal n' = Some v \<and> port_Type (ports g' ! v) = Some e)) \<and>
     (\<exists>n0 g0. newIndexNode True g = Inr (n0, g0) \<and> ix_set n0 \<and>
        ix_outVal n0 = None \<and> ix_ok n0 = None \<and> ix_outs n0 = [])"
proof -
  let ?a = "\<not> ix_set n \<and> (ptr \<or> t = Slice e \<or> t = Named obj (Slice e))"
  let ?e = "if ?a then Pointer e else e"
  from container_types_sequence [OF assms(5,6), of "ix_set n"] obtain t0 k0 where
    "container_types (ix_set n) (ports g ! j) = (t0, k0, Some ?e, ?a)"
    by (elim exE)
  then have d: "derive_types n g = Inr (t0, k0, Some ?e, ?a)"
    using derive_types_connected [OF assms(1-4)] by simp
  have e: "or_generic (Some ?e) = Some ?e"
    by (simp add: or_generic_def)
  have new: "\<exists>n0 g0. newIndexNode True g = Inr (n0, g0) \<and> ix_set n0 \<and>
        ix_outVal n0 = None \<and> ix_ok n0 = None \<and> ix_outs n0 = []"
    using newIndexNode_result [of True g] by auto
  show ?thesis
  proof (cases "ix_set n")
    case True
    from index_wf_write [OF assms(1) True] obtain v where
      v: "ix_inVal n = Some v" "ix_outVal n = None" "ix_ok n = None" "ix_outs n = []"
      by (elim exE conjE)
    from index_update_write [OF assms(1) True d] obtain n' g' where
      r: "indexNode_updateInputType n g = Inr (n', g')" "n' = n\<lparr>ix_addressable := ?a\<rparr>"
         "\<forall>v. ix_inVal n = Some v \<longrightarrow> port_Type (ports g' ! v) = or_generic (Some ?e)"
      by (elim exE conjE)
    have "port_Type (ports g' ! v) = Some e"
      using r(3) v(1) e True by simp
    then show ?thesis
      using r(1,2) v True new by auto
  next
    case False
    from index_update_read [OF assms(1) False d] obtain n' g' where
      r: "indexNode_updateInputType n g = Inr (n', g')" "index_wf n' g'"
         "ix_set n' = ix_set n" "ix_outVal n' = ix_outVal n" "ix_addressable n' = ?a"
         "\<forall>v. ix_outVal n = Some v \<longrightarrow> port_Type (ports g' ! v) = or_generic (Some ?e)"
      by (elim exE conjE)
    have r': "\<not> ix_set n'"
      using r(3) False by simp
    from index_wf_read [OF r(2) r'] obtain v where
      v: "ix_outVal n' = Some v" "ix_outs n' ! 0 = v"
      by (cases "ix_ok n'") auto
    have ty: "port_Type (ports g' ! v) = Some ?e"
      using r(4,6) v(1) e by simp
    have "(port_Type (ports g' ! v) = Some (Pointer e)) = ?a"
      using ty Pointer_neq [of e] by auto
    moreover have "\<not> ?a \<longrightarrow> port_Type (ports g' ! v) = Some e"
      using ty by simp
    ultimately show ?thesis
      using r(1,5) v False new by auto
  qed
qed

theorem index_addressable_witness:
  "index_wf example_node example_graph \<and>
   conns (ports example_graph ! ix_x example_node) = 7 # [] \<and>
   connections example_graph 7 = Some \<lparr>src = Some 3, dst = Some 0\<rparr> \<and>
   src \<lparr>src = Some 3, dst = Some 0\<rparr> = Some 3 \<and>
   indirect (port_Type (ports example_graph ! 3)) = (Some (Slice Typ_Int), False) \<and>
   (\<exists>n' g'. indexNode_updateInputType example_node example_graph = Inr (n', g') \<and>
      ix_addressable n' \<and>
      (\<exists>v. ix_outVal n' = Some v \<and> port_Type (ports g' ! v) = Some (Pointer Typ_Int)))"
proof -
  have h2: "conns (ports example_graph ! ix_x example_node) = 7 # []"
    and h3: "connections example_graph 7 = Some \<lparr>src = Some 3, dst = Some 0\<rparr>"
    and h4: "src \<lparr>src = Some 3, dst = Some 0\<rparr> = Some 3"
    and h5: "indirect (port_Type (ports example_graph ! 3)) = (Some (Slice Typ_Int), False)"
    by (simp_all add: example_graph_def example_node_def indirect_def)
  have h6: "Slice Typ_Int = Array 0 Typ_Int \<or> Slice Typ_Int = Named undefined (Array 0 Typ_Int) \<or>
      Slice Typ_Int = Slice Typ_Int \<or> Slice Typ_Int = Named undefined (Slice Typ_Int)"
    by simp
  have r: "\<not> ix_set example_node"
    by (simp add: example_node_def)
  from index_addressable [OF example_wf h2 h3 h4 h5 h6] r
  have "\<exists>n' g'. indexNode_updateInputType example_node example_graph = Inr (n', g') \<and>
      ix_addressable n' \<and>
      (\<exists>v. ix_outVal n' = Some v \<and> port_Type (ports g' ! v) = Some (Pointer Typ_Int))"
    by auto
  then show ?thesis
    using example_wf h2 h3 h4 h5 by simp
qed

text \<open>
  The second type switch of the recomputation tests the type that the container port is
  given, which is the type of the connected source with one pointer taken off and with a
  named type left as it is. A node that reads has the output \<open>ok\<close> afterwards exactly if
  that type is a map type; otherwise an output \<open>ok\<close> that the node had is no longer among
  its outputs, and every connection that was attached to it is gone from the block and
  from the connection lists of all ports.
\<close>

lemma index_ok_port:
  assumes "index_wf n g" and "\<not> ix_set n"
  shows "\<exists>n' g'. indexNode_updateInputType n g = Inr (n', g') \<and>
     (ix_ok n' \<noteq> None) = is_Map (port_Type (ports g' ! ix_x n')) \<and>
     length (ix_outs n') = (if is_Map (port_Type (ports g' ! ix_x n')) then 2 else 1) \<and>
     (\<forall>k. ix_ok n' = Some k \<longrightarrow> ix_outs n' ! 1 = k \<and>
        (ix_ok n = None \<longrightarrow> port_Type (ports g' ! k) = Some Typ_Bool)) \<and>
     (\<not> is_Map (port_Type (ports g' ! ix_x n')) \<longrightarrow>
        (\<forall>k. ix_ok n = Some k \<longrightarrow> k \<notin> set (ix_outs n') \<and>
          (\<forall>c \<in> set (conns (ports g ! k)). connections g' c = None \<and>
             (\<forall>i < length (ports g'). c \<notin> set (conns (ports g' ! i))))))"
proof -
  obtain t0 k0 e0 a where d: "derive_types n g = Inr (t0, k0, e0, a)"
    using derive_types_ok [OF assms(1)] by blast
  from index_update_read [OF assms d] obtain n' g' where
    r: "indexNode_updateInputType n g = Inr (n', g')" and x: "ix_x n' = ix_x n"
    and tx: "port_Type (ports g' ! ix_x n) = or_generic t0"
    and okmap: "(ix_ok n' \<noteq> None) = is_Map (or_generic t0)"
    and outs: "length (ix_outs n') = (if is_Map (or_generic t0) then 2 else 1)"
    and okp: "\<forall>k. ix_ok n' = Some k \<longrightarrow> ix_outs n' ! 1 = k \<and>
        (ix_ok n = None \<longrightarrow> port_Type (ports g' ! k) = Some Typ_Bool)"
    and gone: "\<not> is_Map (or_generic t0) \<longrightarrow>
        (\<forall>k. ix_ok n = Some k \<longrightarrow> k \<notin> set (ix_outs n') \<and>
          (\<forall>c \<in> set (conns (ports g ! k)). connections g' c = None \<and>
             (\<forall>i < length (ports g'). c \<notin> set (conns (ports g' ! i)))))"
    by (elim exE conjE)
  have t: "port_Type (ports g' ! ix_x n') = or_generic t0"
    using tx x by simp
  note okmap' = okmap [folded t] and outs' = outs [folded t] and gone' = gone [folded t]
  show ?thesis
    by (intro exI [of _ n'] exI [of _ g'] conjI r okmap' outs' okp gone')
qed

lemma index_ok_port_example:
  "index_wf example_node example_graph \<and> \<not> ix_set example_node \<and>
   ix_ok example_node = Some 4 \<and> conns (ports example_graph ! 4) = [9] \<and>
   (\<exists>n' g'. indexNode_updateInputType example_node example_graph = Inr (n', g') \<and>
      port_Type (ports g' ! ix_x n') = Some (Slice Typ_Int) \<and>
      ix_ok n' = None \<and> ix_outs n' = [2] \<and> connections g' 9 = None)"
proof -
  have r: "\<not> ix_set example_node"
    and k: "ix_ok example_node = Some 4" "conns (ports example_graph ! 4) = [9]"
    by (simp_all add: example_node_def example_graph_def)
  have run: "\<exists>n' g'. indexNode_updateInputType example_node example_graph = Inr (n', g') \<and>
      port_Type (ports g' ! ix_x n') = Some (Slice Typ_Int) \<and>
      ix_ok n' = None \<and> ix_outs n' = [2] \<and> connections g' 9 = None"
    by (simp add: indexNode_updateInputType_def reform_def derive_types_def example_node_def
        example_graph_def get_port_def first_src_def get_conn_def bind_def container_types_def
        indirect_def Let_def or_generic_def update_ok_def remove_ok_def Remove_def removeConn_def
        assign_types_def setType_def setType_opt_def)
  from index_ok_port [OF example_wf r] run
  have "\<exists>n' g'. indexNode_updateInputType example_node example_graph = Inr (n', g') \<and>
      port_Type (ports g' ! ix_x n') = Some (Slice Typ_Int) \<and>
      ix_ok n' = None \<and> ix_outs n' = [2] \<and> connections g' 9 = None \<and>
      (ix_ok n' \<noteq> None) = is_Map (port_Type (ports g' ! ix_x n'))"
    by auto
  then show ?thesis
    using example_wf r k by auto
qed

text \<open>
  Claim C6 at a container of a named type whose underlying type is a map type. The
  container of a reading node is connected to a port of the type \<open>M\<close>, declared as
  \<open>map[string]bool\<close>. The first type switch resolves the named type and gives the key
  port the key type of the map and the value output its element type; the second switch
  tests the named type itself, so the node is left without the output \<open>ok\<close>: the port that
  the node had is removed, with its connection. With the container connected to a port of
  the type \<open>map[string]bool\<close> itself, the same node keeps the output and its connection.
\<close>

theorem index_named_map_ok_missing:
  "map_sum id
     (\<lambda>(n', g'). (ix_ok n', ix_outs n', port_Type (ports g' ! ix_x n'),
        port_Type (ports g' ! ix_key n'), map_option (\<lambda>v. port_Type (ports g' ! v)) (ix_outVal n'),
        connections g' 9))
     (indexNode_updateInputType example_node named_map_graph) =
   Inr (None, [2], Some example_named_map, Some (Basic 17 ''string''), Some (Some Typ_Bool), None) \<and>
   map_sum id
     (\<lambda>(n', g'). (ix_ok n', ix_outs n', port_Type (ports g' ! ix_x n'),
        port_Type (ports g' ! ix_key n'), map_option (\<lambda>v. port_Type (ports g' ! v)) (ix_outVal n'),
        connections g' 9))
     (indexNode_updateInputType example_node map_graph) =
   Inr (Some 4, [2, 4], Some (Map (Basic 17 ''string'') Typ_Bool), Some (Basic 17 ''string''),
        Some (Some Typ_Bool), Some \<lparr>src = Some 4, dst = Some 5\<rparr>)"
  by (simp add: indexNode_updateInputType_def reform_def derive_types_def example_node_def
      named_map_graph_def map_graph_def example_named_map_def get_port_def first_src_def
      get_conn_def bind_def container_types_def indirect_def Let_def or_generic_def update_ok_def
      remove_ok_def Remove_def add_ok_def removeConn_def assign_types_def setType_def
      setType_opt_def)



section \<open>Facts about the writer of named types\<close>










lemma bind_cases:
  obtains (error) e where "m = Inl e" "bind m f = Inl e"
  | (ok) v where "m = Inr v" "bind m f = f v"
  by (cases m) (simp_all add: bind_def)






text \<open>The text of the example type, for the two orders of its two packages.\<close>

lemma saveType_example:
  "saveType id [] example_obj (Some example_struct) =
     Inr (''package main'' @ newline @ newline @
          ''import ('' @ newline @
          tab @ [CHR 0x22] @ ''os'' @ [CHR 0x22] @ newline @
          tab @ [CHR 0x22] @ ''fmt'' @ [CHR 0x22] @ newline @
          '')'' @ newline @ newline @
          ''type T struct{f os.File; s fmt.Stringer}'')"
  "saveType rev [] example_obj (Some example_struct) =
     Inr (''package main'' @ newline @ newline @
          ''import ('' @ newline @
          tab @ [CHR 0x22] @ ''fmt'' @ [CHR 0x22] @ newline @
          tab @ [CHR 0x22] @ ''os'' @ [CHR 0x22] @ newline @
          '')'' @ newline @ newline @
          ''type T struct{f os.File; s fmt.Stringer}'')"
  by code_simp+



section \<open>Facts about blocks\<close>

lemma w_name_returns:
  assumes "finite (dom (w_names w))"
  shows "\<exists>nm w1. w_name w s = Inr (nm, w1) \<and> nm \<notin> dom (w_names w) \<and>
     w1 = w\<lparr>w_names := w_names w1\<rparr> \<and> dom (w_names w1) = insert nm (dom (w_names w))"
proof -
  from name_returns [OF assms, of s] obtain r ns where
    "name (w_names w) s = Some (r, ns)" "r \<notin> dom (w_names w)" "dom ns = insert r (dom (w_names w))"
    by (elim exE conjE)
  then show ?thesis
    by (simp add: w_name_def)
qed

lemma arg_cases:
  assumes "vars i = None" and "i < length (wg_ports g)"
  shows "arg g vars n w i =
     (if make_capacity n i then Inr (None, w)
      else if underlying (wp_Type (wg_ports g ! i)) = None then Inr (None, w)
      else if reference_like (underlying (wp_Type (wg_ports g ! i))) then Inr (Some ''nil'', w)
      else bind (w_name w ''v'') (\<lambda>(nm, w1).
           bind (w_typ w1 (the (underlying (wp_Type (wg_ports g ! i))))) (\<lambda>s.
             Inr (Some nm, w_indent w1 (''var '' @ nm @ '' '' @ s @ newline)))))"
proof (cases "make_capacity n i")
  case True
  then show ?thesis
    using assms(1) by (simp add: arg_def make_capacity_def)
next
  case False
  let ?u = "underlying (wp_Type (wg_ports g ! i))"
  have a: "arg g vars n w i =
     (case ?u of
        None \<Rightarrow> Inr (None, w)
      | Some (Slice e) \<Rightarrow> Inr (Some ''nil'', w)
      | Some (Map k e) \<Rightarrow> Inr (Some ''nil'', w)
      | Some (Signature v ps rs) \<Rightarrow> Inr (Some ''nil'', w)
      | Some t \<Rightarrow>
          bind (w_name w ''v'') (\<lambda>(nm, w1).
          bind (w_typ w1 t) (\<lambda>s.
            Inr (Some nm, w_indent w1 (''var '' @ nm @ '' '' @ s @ newline)))))"
  proof -
    have c: "\<not> ((case n_kind n of MakeNode t \<Rightarrow> True | _ \<Rightarrow> False) \<and> length (n_ins n) > 1 \<and>
        i = n_ins n ! 1)"
      using False unfolding make_capacity_def .
    have gp: "get_wport g i = Inr (wg_ports g ! i)"
      using assms(2) by (simp add: get_wport_def)
    show ?thesis
      by (simp only: arg_def assms(1) option.case if_not_P [OF c] gp bind_Inr)
  qed
  show ?thesis
  proof (cases ?u)
    case None
    then show ?thesis
      using a False by simp
  next
    case (Some t)
    then show ?thesis
      using a False by (cases t) (simp_all add: reference_like_def del: w_typ.simps)
  qed
qed

lemma results_loop_unconnected:
  "list_all (unconnected g) ps \<Longrightarrow>
   \<exists>rs. results_loop en g vars w existing any ps = Inr (rs, existing, any, w)"
  by (induction ps) (auto simp: unconnected_def get_wport_def bind_def)

lemma results_unconnected:
  assumes "list_all (unconnected g) (n_outs n)"
  shows "results en g vars w n = Inr ([], None, w)"
  using results_loop_unconnected [OF assms, of en vars w "[]" False]
  by (auto simp: results_def bind_def)

lemma emit_delete_unconnected:
  assumes "n_kind n = DeleteNode" "n_outs n = []" "n_ins n = i0 # rest" "unconnected g i0"
  shows "emit_node en g vars w n = bind (args g vars n w (n_ins n)) (\<lambda>(as, w1). seq g w1 n)"
proof -
  have r: "results en g vars w1 n = Inr ([], None, w1)" for w1
    using assms(2) by (simp add: results_unconnected)
  have s: "statement g w1 n as [] None = bind (seq g w1 n) (\<lambda>w2. Inr (None, w2))" for w1 as
    using assms by (simp add: statement_def conns_at_def at_def get_wport_def unconnected_def bind_def)
  show ?thesis
    using assms(1)
    by (cases "args g vars n w (n_ins n)")
      (auto simp: emit_node_def emit_default_def r s bind_def assignExisting_def
        split: sum.splits)
qed

lemma emit_len_unconnected:
  assumes "n_kind n = LenNode" "list_all (unconnected g) (n_outs n)"
  shows "emit_node en g vars w n = bind (args g vars n w (n_ins n)) (\<lambda>(as, w1). seq g w1 n)"
proof -
  have r: "results en g vars w1 n = Inr ([], None, w1)" for w1
    using assms(2) by (simp add: results_unconnected)
  have s: "statement g w1 n as [] None = bind (seq g w1 n) (\<lambda>w2. Inr (None, w2))" for w1 as
    using assms by (simp add: statement_def bind_def)
  show ?thesis
    using assms(1)
    by (cases "args g vars n w (n_ins n)")
      (auto simp: emit_node_def emit_default_def r s bind_def assignExisting_def
        split: sum.splits)
qed


lemma seq_text:
  assumes "seq g w n = Inr w'"
  shows "\<exists>ann. w_src w' = w_src w @ ann @ newline \<and> (ann = [] \<or> (\<exists>r. ann = ''//'' @ r)) \<and>
     w_nindent w' = w_nindent w \<and> w_names w' = w_names w \<and> w_pkgNames w' = w_pkgNames w"
  using assms
  by (auto simp: seq_def Let_def bind_def w_write_def split: if_splits sum.splits)

text \<open>
  Claim C8, as stated, fails for the capacity of a make node: the two inputs of the
  example node are not connected and have the type \<open>int\<close>; the loop over the inputs
  declares a variable for the first and gives no argument and no declaration for the
  second.
\<close>

theorem make_capacity_counterexample:
  "unconnected make_graph (n_ins make_node ! 1) \<and>
   wp_Type (wg_ports make_graph ! (n_ins make_node ! 1)) = Some Typ_Int \<and>
   map_sum id (\<lambda>(as, w). (as, w_src w))
     (args make_graph Map.empty make_node example_writer (n_ins make_node)) =
     Inr ([''v''], ''var v int'' @ newline)"
  by code_simp

text \<open>
  Claim C8, amended. In the loop over the inputs of a node: an input with a variable in
  \<open>vars\<close> is passed that variable; of the others (the inputs that are not connected),
  the capacity of a make node and an input of unknown type give no argument, an input
  whose underlying type is a slice, map or function type is passed \<open>nil\<close>, and every
  other input is passed a name that the allocator returns fresh, declared by a line
  \<open>var name type\<close> (or the type cannot be written and the emission panics). A delete
  node whose container is not connected, and a len node whose output is not connected,
  write nothing but these declarations and the end of the line, with the sequencing
  annotation if there is one.
\<close>

theorem unconnected_inputs:
  assumes "finite (dom (w_names w))"
  shows "(\<forall>nm. vars i = Some nm \<longrightarrow> arg g vars n w i = Inr (Some nm, w)) \<and>
     (vars i = None \<and> i < length (wg_ports g) \<longrightarrow>
        (make_capacity n i \<longrightarrow> arg g vars n w i = Inr (None, w)) \<and>
        (\<not> make_capacity n i \<longrightarrow>
           (underlying (wp_Type (wg_ports g ! i)) = None \<longrightarrow> arg g vars n w i = Inr (None, w)) \<and>
           (reference_like (underlying (wp_Type (wg_ports g ! i))) \<longrightarrow>
              arg g vars n w i = Inr (Some ''nil'', w)) \<and>
           (\<forall>t. underlying (wp_Type (wg_ports g ! i)) = Some t \<and> \<not> reference_like (Some t) \<longrightarrow>
              (\<exists>nm w1. w_name w ''v'' = Inr (nm, w1) \<and> nm \<notin> dom (w_names w) \<and>
                 arg g vars n w i =
                   bind (w_typ w1 t) (\<lambda>s.
                     Inr (Some nm, w_indent w1 (''var '' @ nm @ '' '' @ s @ newline))))))) \<and>
     (n_kind n = DeleteNode \<and> n_outs n = [] \<and> n_ins n \<noteq> [] \<and> unconnected g (hd (n_ins n)) \<or>
      n_kind n = LenNode \<and> list_all (unconnected g) (n_outs n) \<longrightarrow>
        emit_node en g vars w n = bind (args g vars n w (n_ins n)) (\<lambda>(as, w1). seq g w1 n)) \<and>
     (\<forall>w1 w2. seq g w1 n = Inr w2 \<longrightarrow>
        (\<exists>ann. w_src w2 = w_src w1 @ ann @ newline \<and> (ann = [] \<or> (\<exists>r. ann = ''//'' @ r))))"
proof -
  have bound: "\<forall>nm. vars i = Some nm \<longrightarrow> arg g vars n w i = Inr (Some nm, w)"
    by (simp add: arg_def)
  have unbound: "(make_capacity n i \<longrightarrow> arg g vars n w i = Inr (None, w)) \<and>
        (\<not> make_capacity n i \<longrightarrow>
           (underlying (wp_Type (wg_ports g ! i)) = None \<longrightarrow> arg g vars n w i = Inr (None, w)) \<and>
           (reference_like (underlying (wp_Type (wg_ports g ! i))) \<longrightarrow>
              arg g vars n w i = Inr (Some ''nil'', w)) \<and>
           (\<forall>t. underlying (wp_Type (wg_ports g ! i)) = Some t \<and> \<not> reference_like (Some t) \<longrightarrow>
              (\<exists>nm w1. w_name w ''v'' = Inr (nm, w1) \<and> nm \<notin> dom (w_names w) \<and>
                 arg g vars n w i =
                   bind (w_typ w1 t) (\<lambda>s.
                     Inr (Some nm, w_indent w1 (''var '' @ nm @ '' '' @ s @ newline))))))"
    if h: "vars i = None \<and> i < length (wg_ports g)"
  proof -
    note a = arg_cases [of vars i g n w]
    from w_name_returns [OF assms, of "''v''"] obtain nm w1 where
      nm: "w_name w ''v'' = Inr (nm, w1)" "nm \<notin> dom (w_names w)"
      by (elim exE conjE)
    have decl: "\<exists>nm w1. w_name w ''v'' = Inr (nm, w1) \<and> nm \<notin> dom (w_names w) \<and>
                 arg g vars n w i =
                   bind (w_typ w1 t) (\<lambda>s.
                     Inr (Some nm, w_indent w1 (''var '' @ nm @ '' '' @ s @ newline)))"
      if "\<not> make_capacity n i" "underlying (wp_Type (wg_ports g ! i)) = Some t"
        "\<not> reference_like (Some t)" for t
      using a h that nm by (simp add: bind_def)
    have ref: "underlying (wp_Type (wg_ports g ! i)) \<noteq> None"
      if "reference_like (underlying (wp_Type (wg_ports g ! i)))"
      using that by (cases "underlying (wp_Type (wg_ports g ! i))") (simp_all add: reference_like_def)
    show ?thesis
      using a h decl ref by auto
  qed
  have quiet: "emit_node en g vars w n = bind (args g vars n w (n_ins n)) (\<lambda>(as, w1). seq g w1 n)"
    if "n_kind n = DeleteNode \<and> n_outs n = [] \<and> n_ins n \<noteq> [] \<and> unconnected g (hd (n_ins n)) \<or>
      n_kind n = LenNode \<and> list_all (unconnected g) (n_outs n)"
  proof -
    from that consider
      (delete) "n_kind n = DeleteNode" "n_outs n = []" "n_ins n \<noteq> []" "unconnected g (hd (n_ins n))"
      | (len) "n_kind n = LenNode" "list_all (unconnected g) (n_outs n)"
      by blast
    then show ?thesis
    proof cases
      case delete
      then obtain i0 rest where "n_ins n = i0 # rest" "unconnected g i0"
        by (cases "n_ins n") auto
      then show ?thesis
        using delete(1,2) by (rule emit_delete_unconnected [rotated 2])
    next
      case len
      then show ?thesis
        by (rule emit_len_unconnected)
    qed
  qed
  have ann: "\<forall>w1 w2. seq g w1 n = Inr w2 \<longrightarrow>
        (\<exists>ann. w_src w2 = w_src w1 @ ann @ newline \<and> (ann = [] \<or> (\<exists>r. ann = ''//'' @ r)))"
    using seq_text [of g _ n] by blast
  show ?thesis
    using bound unbound quiet ann by blast
qed

theorem unconnected_inputs_witness:
  "finite (dom (w_names example_writer)) \<and>
   Map.empty (0 :: nat) = (None :: string option) \<and> 0 < length (wg_ports make_graph) \<and>
   \<not> make_capacity make_node 0 \<and>
   underlying (wp_Type (wg_ports make_graph ! 0)) = Some Typ_Int \<and>
   \<not> reference_like (Some Typ_Int) \<and>
   (\<exists>nm w1. w_name example_writer ''v'' = Inr (nm, w1) \<and> nm \<notin> dom (w_names example_writer) \<and>
      arg make_graph Map.empty make_node example_writer 0 =
        bind (w_typ w1 Typ_Int) (\<lambda>s.
          Inr (Some nm, w_indent w1 (''var '' @ nm @ '' '' @ s @ newline))))"
proof -
  have fin: "finite (dom (w_names example_writer))"
    by (simp add: example_writer_def)
  have h: "Map.empty (0 :: nat) = (None :: string option)" "0 < length (wg_ports make_graph)"
    "\<not> make_capacity make_node 0"
    "underlying (wp_Type (wg_ports make_graph ! 0)) = Some Typ_Int"
    "\<not> reference_like (Some Typ_Int)"
    by (simp_all add: make_graph_def make_node_def make_capacity_def underlying_def
        reference_like_def Typ_Int_def)
  from unconnected_inputs [OF fin, of Map.empty 0 make_graph make_node] h
  have "\<exists>nm w1. w_name example_writer ''v'' = Inr (nm, w1) \<and> nm \<notin> dom (w_names example_writer) \<and>
      arg make_graph Map.empty make_node example_writer 0 =
        bind (w_typ w1 Typ_Int) (\<lambda>s.
          Inr (Some nm, w_indent w1 (''var '' @ nm @ '' '' @ s @ newline)))"
    by blast
  then show ?thesis
    using fin h by blast
qed



section \<open>The scheduler and blocks with a cycle\<close>

lemma deps_nodes:
  assumes "(x, y) \<in> set (deps g b)"
  shows "x \<in> set (node_ids b) \<and> y \<in> set (node_ids b)"
proof -
  from assms obtain c where "(x, y) \<in> set (dep g b c)"
    by (auto simp: deps_def)
  then show ?thesis
    by (auto simp: dep_def split: option.splits if_splits)
qed

lemma find_ready:
  assumes "find (ready es before) left = Some n"
  shows "n \<in> set left \<and> ready es before n"
  using assms by (auto simp: find_Some_iff)



text \<open>
  On a block without a cycle the scheduler returns, and the order holds every node of
  the block once.
\<close>

lemma order_loop_acyclic:
  assumes "wf (set es)" and "\<And>x y. (x, y) \<in> set es \<Longrightarrow> x \<in> N"
    and "N = set (map n_id taken) \<union> set (map n_id left)" and "length left \<le> k"
  shows "\<exists>order. order_loop k es taken left = Inr order \<and> mset order = mset taken + mset left"
  using assms(3,4)
proof (induction k arbitrary: taken left)
  case 0
  then show ?case
    by (simp add: order_end_def)
next
  case (Suc k)
  show ?case
  proof (cases "left = []")
    case True
    then show ?thesis
      by (simp add: order_end_def)
  next
    case False
    let ?Q = "set (map n_id left)"
    have "\<exists>z. z \<in> ?Q"
      using False by (cases left) auto
    then obtain z0 where "z0 \<in> ?Q"
      by (elim exE)
    from wfE_min [OF assms(1) this] obtain z where
      z: "z \<in> ?Q" "\<And>y. (y, z) \<in> set es \<Longrightarrow> y \<notin> ?Q"
      by blast
    from z(1) obtain m where m: "m \<in> set left" "n_id m = z"
      by auto
    have "ready es (map n_id taken) m"
      unfolding ready_def list_all_iff
    proof (intro ballI impI)
      fix e
      assume e: "e \<in> set es" "snd e = n_id m"
      have "(fst e, z) = e"
        using e(2) m(2) by (simp add: prod_eq_iff)
      then have edge: "(fst e, z) \<in> set es"
        using e(1) by simp
      then have "fst e \<notin> ?Q"
        by (rule z(2))
      moreover have "fst e \<in> N"
        using edge by (rule assms(2))
      ultimately show "fst e \<in> set (map n_id taken)"
        using Suc.prems(1) by blast
    qed
    then have "find (ready es (map n_id taken)) left \<noteq> None"
      using m(1) by (auto simp: find_None_iff)
    then obtain n where n: "find (ready es (map n_id taken)) left = Some n"
      by blast
    from find_ready [OF n] have nl: "n \<in> set left"
      by simp
    have 1: "N = set (map n_id (n # taken)) \<union> set (map n_id (remove1 n left))"
    proof -
      have "set left = insert n (set (remove1 n left))"
      proof (intro set_eqI iffI)
        fix x
        assume "x \<in> set left"
        then show "x \<in> insert n (set (remove1 n left))"
          by (cases "x = n") simp_all
      next
        fix x
        assume "x \<in> insert n (set (remove1 n left))"
        then show "x \<in> set left"
          using nl set_remove1_subset [of n left] by auto
      qed
      then have "n_id ` set left = insert (n_id n) (n_id ` set (remove1 n left))"
        by (metis image_insert)
      then show ?thesis
        using Suc.prems(1) by simp
    qed
    have 2: "length (remove1 n left) \<le> k"
      using Suc.prems(2) nl by (simp add: length_remove1)
    from Suc.IH [OF 1 2] obtain order where
      o: "order_loop k es (n # taken) (remove1 n left) = Inr order"
        "mset order = mset (n # taken) + mset (remove1 n left)"
      by (elim exE conjE)
    have 3: "order_loop (Suc k) es taken left = Inr order"
      using n o(1) by simp
    have 4: "mset order = mset taken + mset left"
      using o(2) nl by simp
    show ?thesis
      by (intro exI [of _ order] conjI 3 4)
  qed
qed

lemma nodeOrder_acyclic:
  assumes "\<not> has_cycle g b"
  shows "\<exists>order. nodeOrder g b = Inr order \<and> mset order = mset (b_nodes b)"
proof -
  have ends: "x \<in> set (node_ids b)" if "(x, y) \<in> set (deps g b)" for x y
    using deps_nodes [OF that] by simp
  have "(x, x) \<notin> trancl (set (deps g b))" for x
  proof
    assume c: "(x, x) \<in> trancl (set (deps g b))"
    then obtain y where "(x, y) \<in> set (deps g b)"
      by (blast dest: tranclD)
    then have "x \<in> set (node_ids b)"
      by (rule ends)
    then show False
      using assms c by (auto simp: has_cycle_def)
  qed
  then have "acyclic (set (deps g b))"
    by (simp add: acyclic_def)
  then have wf: "wf (set (deps g b))"
    by (simp add: finite_acyclic_wf)
  have "\<exists>order. order_loop (length (b_nodes b)) (deps g b) [] (b_nodes b) = Inr order \<and>
      mset order = mset [] + mset (b_nodes b)"
  proof (rule order_loop_acyclic [where N = "set (node_ids b)"])
    show "wf (set (deps g b))"
      by (rule wf)
    show "x \<in> set (node_ids b)" if "(x, y) \<in> set (deps g b)" for x y
      using that by (rule ends)
    show "set (node_ids b) = set (map n_id []) \<union> set (map n_id (b_nodes b))"
      by (simp add: node_ids_def)
    show "length (b_nodes b) \<le> length (b_nodes b)"
      by simp
  qed
  then show ?thesis
    by (simp add: nodeOrder_def)
qed







section \<open>Two emissions of one definition\<close>

subsection \<open>The orders of the visits that a block depends on\<close>



















section \<open>Facts about the hasher\<close>

lemma memo_ok_empty: "memo_ok MakeHasher"
  by (simp add: memo_ok_def MakeHasher_def)

lemma memo_ok_update: "memo_ok h \<Longrightarrow> hashable t \<Longrightarrow> memo_ok (h(t \<mapsto> hashOf t))"
  by (simp add: memo_ok_def)

lemma hashes_to_Inr: "memo_ok h \<Longrightarrow> x = y \<Longrightarrow> hashes_to (Inr (x, h)) True y"
  by (auto simp: hashes_to_def)

lemma hashes_to_bind:
  assumes "hashes_to m ok x"
    and "\<And>h. ok \<Longrightarrow> memo_ok h \<Longrightarrow> hashes_to (f (x, h)) ok' y"
  shows "hashes_to (bind m f) (ok \<and> ok') y"
proof (cases ok)
  case False
  then show ?thesis
    using assms(1) by (simp add: hashes_to_def bind_def)
next
  case True
  then obtain h where "m = Inr (x, h)" "memo_ok h"
    using assms(1) by (auto simp: hashes_to_def)
  then show ?thesis
    using assms(2) [OF True, of h] True by (simp add: bind_def)
qed

lemma hashes_to_bind1:
  assumes "hashes_to m ok x"
    and "\<And>h. ok \<Longrightarrow> memo_ok h \<Longrightarrow> hashes_to (f (x, h)) True y"
  shows "hashes_to (bind m f) ok y"
proof (cases ok)
  case False
  then show ?thesis
    using assms(1) by (simp add: hashes_to_def bind_def)
next
  case True
  then obtain h where "m = Inr (x, h)" "memo_ok h"
    using assms(1) by (auto simp: hashes_to_def)
  then show ?thesis
    using assms(2) [OF True, of h] True by (simp add: bind_def)
qed

lemma Hash_ok:
  "memo_ok h \<Longrightarrow> hashes_to (Hash h t) (hashable t) (hashOf t)"
  "memo_ok h \<Longrightarrow> hashes_to (hashFor h t) (hashable t) (hashOf t)"
  "memo_ok h \<Longrightarrow>
     hashes_to (hashTuple h vs) (hashableVars vs) (9137 + 2 * of_nat (length vs) + hashOfVars vs)"
  "memo_ok h \<Longrightarrow> hashes_to (hashVars h acc vs) (hashableVars vs) (acc + hashOfVars vs)"
  "memo_ok h \<Longrightarrow> hashes_to (hashFields h acc fs) (hashableFields fs) (acc + hashOfFields fs)"
  "memo_ok h \<Longrightarrow> hashes_to (hashMethods h acc ms) (hashableMethods ms) (acc + hashOfMethods ms)"
proof (induction h t and h t and h vs and h acc vs and h acc fs and h acc ms
    rule: Hash_hashFor_hashTuple_hashVars_hashFields_hashMethods.induct)
  case (1 h t)
  show ?case
  proof (cases "h t")
    case (Some x)
    then have "hashable t" "x = hashOf t"
      using 1(2) by (auto simp: memo_ok_def)
    then show ?thesis
      using Some 1(2) by (simp add: Hash.simps hashes_to_def)
  next
    case None
    from 1(1) [OF None 1(2)] show ?thesis
      using None by (auto simp: Hash.simps hashes_to_def bind_def memo_ok_update)
  qed
next
  case (2 h kind nm)
  then show ?case by (simp add: hashes_to_def)
next
  case (3 h len e)
  show ?case
    unfolding hashFor.simps hashable.simps hashOf.simps
    by (rule hashes_to_bind1 [OF 3(1) [OF 3(2)]]) (simp add: hashes_to_def)
next
  case (4 h e)
  show ?case
    unfolding hashFor.simps hashable.simps hashOf.simps
    by (rule hashes_to_bind1 [OF 4(1) [OF 4(2)]]) (simp add: hashes_to_def)
next
  case (5 h fs)
  then show ?case by simp
next
  case (6 h e)
  show ?case
    unfolding hashFor.simps hashable.simps hashOf.simps
    by (rule hashes_to_bind1 [OF 6(1) [OF 6(2)]]) (simp add: hashes_to_def)
next
  case (7 h variadic ps rs)
  show ?case
    unfolding hashFor.simps hashable.simps hashOf.simps
    apply (rule hashes_to_bind [OF 7(1) [OF 7(3)]])
    apply (simp only: prod.case)
    apply (rule hashes_to_bind1 [OF 7(2)])
     apply assumption
    apply (simp add: hashes_to_def)
    done
next
  case (8 h ms)
  then show ?case by simp
next
  case (9 h k e)
  show ?case
    unfolding hashFor.simps hashable.simps hashOf.simps
    apply (rule hashes_to_bind [OF 9(1) [OF 9(3)]])
    apply (simp only: prod.case)
    apply (rule hashes_to_bind1 [OF 9(2)])
     apply assumption
    apply (simp add: hashes_to_def)
    done
next
  case (10 h d e)
  show ?case
    unfolding hashFor.simps hashable.simps hashOf.simps
    by (rule hashes_to_bind1 [OF 10(1) [OF 10(2)]]) (simp add: hashes_to_def)
next
  case (11 h obj u)
  then show ?case by (simp add: hashes_to_def)
next
  case (12 h vs)
  then show ?case by simp
next
  case (13 h)
  then show ?case by (simp add: hashes_to_def)
next
  case (14 h vs)
  then show ?case by simp
next
  case (15 h hash)
  then show ?case by (simp add: hashes_to_def)
next
  case (16 h hash nm t vs)
  have "hashes_to (bind (Hash h t) (\<lambda>(x, h1). hashVars h1 (hash + 3 * x) vs))
     (hashable t \<and> hashableVars vs) (hash + 3 * hashOf t + hashOfVars vs)"
    by (rule hashes_to_bind [OF 16(1) [OF 16(3)]]) (simp add: 16(2))
  then show ?case
    by (simp add: add.assoc)
next
  case (17 h hash)
  then show ?case by (simp add: hashes_to_def)
next
  case (18 h hash nm anonymous tag t fs)
  have "hashes_to (bind (Hash h t) (\<lambda>(x, h1).
       hashFields h1
         ((if anonymous then hash + 8861 else hash) + hashString tag + hashString nm + x) fs))
     (hashable t \<and> hashableFields fs)
     ((if anonymous then hash + 8861 else hash) + hashString tag + hashString nm + hashOf t +
      hashOfFields fs)"
    by (rule hashes_to_bind [OF 18(1) [OF 18(3)]]) (simp add: 18(2))
  then show ?case
    by (cases anonymous) (simp_all add: add.assoc)
next
  case (19 h hash)
  then show ?case by (simp add: hashes_to_def)
next
  case (20 h hash nm t ms)
  have "hashes_to (bind (Hash h t) (\<lambda>(x, h1). hashMethods h1 (hash + (3 * hashString nm + 5 * x)) ms))
     (hashable t \<and> hashableMethods ms) (hash + (3 * hashString nm + 5 * hashOf t) + hashOfMethods ms)"
    by (rule hashes_to_bind [OF 20(1) [OF 20(3)]]) (simp add: 20(2))
  then show ?case
    by (simp add: add.assoc)
qed


lemma hashOfMethods_remove1:
  "Method nm t \<in> set ms \<Longrightarrow>
   hashOfMethods ms = 3 * hashString nm + 5 * hashOf t + hashOfMethods (remove1 (Method nm t) ms)"
proof (induction ms)
  case Nil
  then show ?case by simp
next
  case (Cons m ms)
  obtain nm' t' where m: "m = Method nm' t'"
    by (cases m)
  show ?case
  proof (cases "m = Method nm t")
    case True
    then show ?thesis by simp
  next
    case False
    then have "Method nm t \<in> set ms"
      using Cons.prems by simp
    from Cons.IH [OF this] show ?thesis
      using False m by (simp add: add.assoc add.left_commute)
  qed
qed

lemma hashableMethods_remove1:
  "Method nm t \<in> set ms \<Longrightarrow>
   hashableMethods ms = (hashable t \<and> hashableMethods (remove1 (Method nm t) ms))"
proof (induction ms)
  case Nil
  then show ?case by simp
next
  case (Cons m ms)
  obtain nm' t' where m: "m = Method nm' t'"
    by (cases m)
  show ?case
  proof (cases "m = Method nm t")
    case True
    then show ?thesis by simp
  next
    case False
    then have "Method nm t \<in> set ms"
      using Cons.prems by simp
    from Cons.IH [OF this] show ?thesis
      using False m by auto
  qed
qed

lemma identical_hashOf:
  "IsIdentical t t' \<Longrightarrow> hashable t = hashable t' \<and> hashOf t = hashOf t'"
  "identicalTypes vs vs' \<Longrightarrow>
     length vs = length vs' \<and> hashableVars vs = hashableVars vs' \<and> hashOfVars vs = hashOfVars vs'"
  "identicalFields fs fs' \<Longrightarrow>
     hashableFields fs = hashableFields fs' \<and> hashOfFields fs = hashOfFields fs'"
  "identicalMethods ms ms' \<Longrightarrow>
     hashableMethods ms = hashableMethods ms' \<and> hashOfMethods ms = hashOfMethods ms'"
proof (induction rule: IsIdentical_identicalTypes_identicalFields_identicalMethods.inducts)
  case (methods_cons nm t' ms' t ms)
  show ?case
    using methods_cons.IH hashOfMethods_remove1 [OF methods_cons.hyps(1)]
      hashableMethods_remove1 [OF methods_cons.hyps(1)]
    by simp
qed simp_all

lemma hash_calls_ok: "memo_ok h \<Longrightarrow> hash_calls h ts = Inr h' \<Longrightarrow> memo_ok h'"
proof (induction ts arbitrary: h)
  case Nil
  then show ?case by simp
next
  case (Cons t ts)
  from Cons.prems(2) obtain x h1 where 1: "Hash h t = Inr (x, h1)" and 2: "hash_calls h1 ts = Inr h'"
    by (auto simp: bind_def split: sum.splits)
  have "memo_ok h1"
    using Hash_ok(1) [OF Cons.prems(1), of t] 1 by (auto simp: hashes_to_def split: if_splits)
  then show ?case
    using 2 by (rule Cons.IH)
qed

lemma Hash_value:
  assumes "memo_ok h"
  shows "map_sum id fst (Hash h t) = (if hashable t then Inr (hashOf t) else Inl unhashable)"
  using Hash_ok(1) [OF assms, of t] by (auto simp: hashes_to_def)

lemma Hash_again:
  assumes "Hash h t = Inr (x, h1)"
  shows "Hash h1 t = Inr (x, h1)"
proof (cases "h t")
  case (Some y)
  then show ?thesis
    using assms by (simp add: Hash.simps)
next
  case None
  then obtain h0 where "h1 = h0(t \<mapsto> x)"
    using assms by (auto simp: Hash.simps bind_def split: sum.splits)
  then show ?thesis
    by (simp add: Hash.simps)
qed

text \<open>
  Claim C9. Two hashers, each after any calls made on it so far (they may be one hasher
  at two moments), give the same result to types that are identical: the same hash value,
  or a panic for both if the types have a part that has no case in \<open>hashFor\<close>. For a
  type all of whose parts have a case the call returns, and a second call on the same
  type returns the same value and leaves the memo as it is.
\<close>

theorem hash_identical:
  assumes "hash_calls MakeHasher ts = Inr h" and "hash_calls MakeHasher ts' = Inr h'"
    and "IsIdentical t t'"
  shows "map_sum id fst (Hash h t) = map_sum id fst (Hash h' t') \<and>
     (hashable t \<longrightarrow> (\<exists>x h1. Hash h t = Inr (x, h1) \<and> Hash h1 t = Inr (x, h1)))"
proof -
  have ok: "memo_ok h" "memo_ok h'"
    using assms(1,2) memo_ok_empty by (auto intro: hash_calls_ok)
  have 1: "map_sum id fst (Hash h t) = map_sum id fst (Hash h' t')"
    using identical_hashOf(1) [OF assms(3)] by (simp add: Hash_value ok)
  have 2: "\<exists>x h1. Hash h t = Inr (x, h1) \<and> Hash h1 t = Inr (x, h1)" if "hashable t"
  proof -
    from Hash_ok(1) [OF ok(1), of t] that obtain h1 where h1: "Hash h t = Inr (hashOf t, h1)"
      by (auto simp: hashes_to_def)
    show ?thesis
      by (intro exI [of _ "hashOf t"] exI [of _ h1] conjI h1 Hash_again [OF h1])
  qed
  show ?thesis
    using 1 2 by blast
qed

lemma example_identical: "IsIdentical example_iface example_iface'"
  unfolding example_iface_def example_iface'_def
  apply (rule interface)
  apply (rule methods_cons [where t' = "Signature False [] [Var ''n'' Typ_Int]"])
    apply simp
   apply (rule signature)
     apply simp
    apply (rule types_nil)
   apply (rule types_cons)
    apply (rule same)
   apply (rule types_nil)
  apply simp
  apply (rule methods_cons [where t' = "Signature False [] []"])
    apply simp
   apply (rule same)
  apply simp
  apply (rule methods_nil)
  done

lemma example_calls: "hash_calls MakeHasher [Typ_Int] = Inr (MakeHasher(Typ_Int \<mapsto> 2))"
  by (simp add: Hash.simps MakeHasher_def Typ_Int_def bind_def)

theorem hash_identical_witness:
  "hash_calls MakeHasher [Typ_Int] = Inr (MakeHasher(Typ_Int \<mapsto> 2)) \<and>
   hash_calls MakeHasher [] = Inr MakeHasher \<and>
   IsIdentical example_iface example_iface' \<and> hashable example_iface \<and>
   map_sum id fst (Hash (MakeHasher(Typ_Int \<mapsto> 2)) example_iface) =
     map_sum id fst (Hash MakeHasher example_iface') \<and>
   (\<exists>x h1. Hash (MakeHasher(Typ_Int \<mapsto> 2)) example_iface = Inr (x, h1) \<and>
      Hash h1 example_iface = Inr (x, h1))"
proof -
  have 1: "hash_calls MakeHasher [] = Inr MakeHasher"
    by simp
  have 2: "hashable example_iface"
    by (simp add: example_iface_def Typ_Int_def)
  from hash_identical [OF example_calls 1 example_identical] 2 show ?thesis
    using example_calls 1 example_identical by blast
qed


end
